theory Spec2Isabelle
  imports Main "HOL-Library.Word" "HOL-Library.List_Lexorder" "HOL-Library.Product_Lexorder"
begin

section \<open>Identifiers, outputs and UTXOs\<close>

text \<open>
  An \<open>ids.ID\<close> is a 32-byte hash. The hash function is idealised as collision free: an
  identifier is represented by the sequence of numbers it is the hash of, so that two
  identifiers are equal exactly when they were computed from the same data. Identifiers
  given from outside (an asset, a chain, the funding transaction) are arbitrary such
  sequences. \<open>Key()\<close>, which turns an identifier into the array used as a map key, is
  the identity. A short identifier (an address) is a number.
\<close>

type_synonym ID = "nat list"
type_synonym ShortID = nat
type_synonym uint64 = "64 word"
type_synonym uint32 = "32 word"

text \<open>
  Modelled from the spec: \<open>ids.ID.Prefix\<close> is not among the sources. \<open>id.Prefix(n)\<close> is
  the hash of \<open>n\<close> followed by the bytes of \<open>id\<close>; the identity of a UTXO, made of a
  transaction identifier and an output index, is globally unique.
\<close>

definition Prefix :: "ID \<Rightarrow> nat \<Rightarrow> ID" where
  "Prefix i n = n # i"

text \<open>
  Every failure of the code is a value: the errors it returns, and the run-time panics
  of Go (an index out of range, a nil dereference, a division by zero, a negative length).
\<close>

datatype error =
    errAmtZero
  | errOverflow
  | errInsufficientFunds
  | errNoKeys
  | errNoRemainingTxs
  | errParseTx
  | errIssueTx
  | PanicIndexOutOfRange
  | PanicSliceBounds
  | PanicNilDereference
  | PanicTypeAssertion
  | PanicDivideByZero
  | PanicNegativeLen

record OutputOwners =
  Locktime :: uint64
  Threshold :: uint32
  Addrs :: "ShortID list"

text \<open>
  The field \<open>Out\<close> of a UTXO is an interface value: nil, a \<open>secp256k1fx.TransferOutput\<close>
  (the only kind that is an \<open>avax.TransferableOut\<close>, with its \<open>Amount()\<close>), or a
  \<open>secp256k1fx.MintOutput\<close>.
\<close>

datatype Verifiable =
    NilOut
  | TransferOutput uint64 OutputOwners
  | MintOutput OutputOwners

text \<open>The inputs \<open>Keychain.Spend\<close> returns: only a \<open>TransferInput\<close> is an \<open>avax.TransferableIn\<close>.\<close>

datatype FxInput =
    TransferInput uint64 "uint32 list"
  | MintInput "uint32 list"

record UTXOID =
  TxID :: ID
  OutputIndex :: uint32

record UTXO = UTXOID +
  Asset :: ID
  Out :: Verifiable

text \<open>
  Modelled from the spec: \<open>avax.UTXOID.InputID\<close> is not among the sources. The identifier
  of a UTXO is made of its transaction identifier and its output index:
  \<open>TxID.Prefix(uint64(OutputIndex))\<close>.
\<close>

definition InputID :: "'a UTXOID_scheme \<Rightarrow> ID" where
  "InputID u = Prefix (TxID u) (unat (OutputIndex u))"

text \<open>Modelled from the spec: \<open>avax.Asset.AssetID\<close>, the asset identifier of a UTXO.\<close>

definition AssetID :: "UTXO \<Rightarrow> ID" where
  "AssetID u = Asset u"

section \<open>The UTXO set\<close>

text \<open>
  \<open>utxoMap\<close> maps the identifier of a UTXO to its index in \<open>UTXOs\<close>. A nil map reads
  like an empty one, and \<open>Put\<close> allocates it, so nil is the empty map here.
\<close>

record UTXOSet =
  utxoMap :: "ID \<rightharpoonup> nat"
  UTXOs :: "UTXO list"

definition emptyUTXOSet :: UTXOSet where
  "emptyUTXOSet = \<lparr>utxoMap = Map.empty, UTXOs = []\<rparr>"

definition Put :: "UTXOSet \<Rightarrow> UTXO \<Rightarrow> UTXOSet" where
  "Put us utxo =
     (let utxoKey = InputID utxo in
      case utxoMap us utxoKey of
        None \<Rightarrow> us\<lparr>utxoMap := (utxoMap us)(utxoKey \<mapsto> length (UTXOs us)),
                   UTXOs := UTXOs us @ [utxo]\<rparr>
      | Some _ \<Rightarrow> us)"

text \<open>\<open>Get\<close> returns nil (\<open>None\<close>) for an unknown identifier; \<open>us.UTXOs[i]\<close> panics out of range.\<close>

definition Get :: "UTXOSet \<Rightarrow> ID \<Rightarrow> error + UTXO option" where
  "Get us id' =
     (case utxoMap us id' of
        Some i \<Rightarrow>
          if i < length (UTXOs us) then Inr (Some (UTXOs us ! i)) else Inl PanicIndexOutOfRange
      | None \<Rightarrow> Inr None)"

text \<open>
  \<open>Remove\<close>: the last UTXO is copied over position \<open>i\<close>, the list loses its last element,
  the index entry of the moved UTXO is set to \<open>i\<close> and the entry of the removed one is
  deleted, in this order.
\<close>

definition Remove :: "UTXOSet \<Rightarrow> ID \<Rightarrow> error + (UTXO option \<times> UTXOSet)" where
  "Remove us id' =
     (case utxoMap us id' of
        None \<Rightarrow> Inr (None, us)
      | Some i \<Rightarrow>
          if i < length (UTXOs us) then
            (let utxoI = UTXOs us ! i;
                 j = length (UTXOs us) - 1;
                 utxoJ = UTXOs us ! j;
                 l = take j ((UTXOs us)[i := utxoJ]);
                 m = (utxoMap us)(InputID utxoJ \<mapsto> i);
                 m' = m(InputID utxoI := None)
             in Inr (Some utxoI, \<lparr>utxoMap = m', UTXOs = l\<rparr>))
          else Inl PanicIndexOutOfRange)"

text \<open>A sequence of operations on the set, stopping at the first panic.\<close>

datatype ledger_op = OpPut UTXO | OpRemove ID

fun run_ops :: "UTXOSet \<Rightarrow> ledger_op list \<Rightarrow> error + UTXOSet" where
  "run_ops us [] = Inr us"
| "run_ops us (OpPut u # ops) = run_ops (Put us u) ops"
| "run_ops us (OpRemove i # ops) =
     (case Remove us i of Inl e \<Rightarrow> Inl e | Inr (_, us') \<Rightarrow> run_ops us' ops)"

text \<open>
  The specification's reading of the same operations: the UTXOs that were put and not yet
  removed, by identifier. A put of an identifier already present changes nothing.
\<close>

fun put_not_removed :: "(ID \<rightharpoonup> UTXO) \<Rightarrow> ledger_op list \<Rightarrow> (ID \<rightharpoonup> UTXO)" where
  "put_not_removed m [] = m"
| "put_not_removed m (OpPut u # ops) =
     put_not_removed (if m (InputID u) = None then m(InputID u \<mapsto> u) else m) ops"
| "put_not_removed m (OpRemove i # ops) = put_not_removed (m(i := None)) ops"

text \<open>Index and list in step: an identifier has index \<open>i\<close> exactly when the UTXO at \<open>i\<close> has it.\<close>

definition in_sync :: "UTXOSet \<Rightarrow> bool" where
  "in_sync us =
     (\<forall>k i. utxoMap us k = Some i \<longleftrightarrow> (i < length (UTXOs us) \<and> InputID (UTXOs us ! i) = k))"

text \<open>The set \<open>us\<close> holds exactly the UTXOs of \<open>m\<close>, each under its identifier.\<close>

definition holds :: "UTXOSet \<Rightarrow> (ID \<rightharpoonup> UTXO) \<Rightarrow> bool" where
  "holds us m =
     (in_sync us \<and> (\<forall>k. m k = (case utxoMap us k of None \<Rightarrow> None | Some i \<Rightarrow> Some (UTXOs us ! i))))"

section \<open>The key store\<close>

text \<open>
  \<open>secp256k1fx.Keychain\<close> (its \<open>Add\<close>, \<open>Addresses\<close>, \<open>Match\<close> and \<open>Spend\<close>) is not among the
  sources. The specification's key store maps an address to its signing key and keeps
  the known addresses in insertion order; a key is identified with its address here.
\<close>

type_synonym Keychain = "ShortID list"

text \<open>
  Modelled from the spec: the loop of \<open>Keychain.Match\<close> over the owners' addresses, which
  collects the positions and keys of the owners the store knows until the threshold is
  reached; the signers come in the owners' order.
\<close>

fun Match_loop ::
  "Keychain \<Rightarrow> nat \<Rightarrow> ShortID list \<Rightarrow> nat \<Rightarrow> uint32 list \<Rightarrow> ShortID list
    \<Rightarrow> uint32 list \<times> ShortID list" where
  "Match_loop kc th [] i sigs keys = (sigs, keys)"
| "Match_loop kc th (a # as) i sigs keys =
     (if length keys < th then
        (if a \<in> set kc then Match_loop kc th as (i + 1) (sigs @ [of_nat i]) (keys @ [a])
         else Match_loop kc th as (i + 1) sigs keys)
      else (sigs, keys))"

text \<open>
  Modelled from the spec: \<open>Keychain.Match\<close>. An output cannot be spent before its lock
  time, and only when the store holds as many of the owners' keys as the threshold asks.
\<close>

definition Match :: "Keychain \<Rightarrow> OutputOwners \<Rightarrow> uint64 \<Rightarrow> (uint32 list \<times> ShortID list) option" where
  "Match kc owners time =
     (if time < Locktime owners then None
      else (let (sigs, keys) = Match_loop kc (unat (Threshold owners)) (Addrs owners) 0 [] []
            in if length keys = unat (Threshold owners) then Some (sigs, keys) else None))"

text \<open>
  Modelled from the spec: \<open>Keychain.Spend\<close>, which answers whether an output can be spent
  at a reference time, with the input that spends it and its signers.
\<close>

definition Spend :: "Keychain \<Rightarrow> Verifiable \<Rightarrow> uint64 \<Rightarrow> (FxInput \<times> ShortID list) option" where
  "Spend kc out time =
     (case out of
        TransferOutput amt owners \<Rightarrow>
          (case Match kc owners time of
             Some (sigs, keys) \<Rightarrow> Some (TransferInput amt sigs, keys)
           | None \<Rightarrow> None)
      | MintOutput owners \<Rightarrow>
          (case Match kc owners time of
             Some (sigs, keys) \<Rightarrow> Some (MintInput sigs, keys)
           | None \<Rightarrow> None)
      | NilOut \<Rightarrow> None)"

text \<open>The type assertion \<open>utxo.Out.(avax.TransferableOut)\<close> with the amount it gives access to.\<close>

definition TransferableOut :: "Verifiable \<Rightarrow> uint64 option" where
  "TransferableOut out = (case out of TransferOutput amt _ \<Rightarrow> Some amt | _ \<Rightarrow> None)"

text \<open>The type assertion \<open>inputIntf.(avax.TransferableIn)\<close> with its amount.\<close>

definition TransferableIn :: "FxInput \<Rightarrow> uint64 option" where
  "TransferableIn inp = (case inp of TransferInput amt _ \<Rightarrow> Some amt | _ \<Rightarrow> None)"

section \<open>Transactions\<close>

record TransferableOutput =
  oAsset :: ID
  oOut :: Verifiable

record TransferableInput = UTXOID +
  iAsset :: ID
  In :: FxInput

text \<open>
  A signed \<open>avm.Tx\<close> over an \<open>avm.BaseTx\<close>; a credential is the list of the signers of one
  input.
\<close>

record Tx =
  txNetworkID :: uint32
  BlockchainID :: ID
  Outs :: "TransferableOutput list"
  Ins :: "TransferableInput list"
  Creds :: "ShortID list list"

text \<open>
  The codec and the orderings of \<open>avax\<close> are not among the sources. The specification asks
  for a canonical encoding and a fixed total order of inputs and of outputs.
\<close>

text \<open>Modelled from the spec: the encoding of an identifier, behind its length.\<close>

definition id_bytes :: "ID \<Rightarrow> nat list" where
  "id_bytes i = length i # i"

text \<open>Modelled from the spec: the encoding of an owning condition, its fields in order.\<close>

definition owners_bytes :: "OutputOwners \<Rightarrow> nat list" where
  "owners_bytes ow = [unat (Locktime ow), unat (Threshold ow), length (Addrs ow)] @ Addrs ow"

text \<open>Modelled from the spec: the encoding of an output: its type, amount and owners.\<close>

definition out_bytes :: "Verifiable \<Rightarrow> nat list" where
  "out_bytes out =
     (case out of
        NilOut \<Rightarrow> []
      | TransferOutput amt ow \<Rightarrow> [7, unat amt] @ owners_bytes ow
      | MintOutput ow \<Rightarrow> [6] @ owners_bytes ow)"

text \<open>Modelled from the spec: the encoding of an input: its type, amount and signature indices.\<close>

definition in_bytes :: "FxInput \<Rightarrow> nat list" where
  "in_bytes inp =
     (case inp of
        TransferInput amt sigs \<Rightarrow> [5, unat amt, length sigs] @ map unat sigs
      | MintInput sigs \<Rightarrow> [length sigs] @ map unat sigs)"

text \<open>Modelled from the spec: the encoding of a transaction's output, the asset first.\<close>

definition toutput_bytes :: "TransferableOutput \<Rightarrow> nat list" where
  "toutput_bytes out = id_bytes (oAsset out) @ out_bytes (oOut out)"

text \<open>Modelled from the spec: the encoding of a transaction's input, the consumed UTXO first.\<close>

definition tinput_bytes :: "TransferableInput \<Rightarrow> nat list" where
  "tinput_bytes inp =
     id_bytes (TxID inp) @ [unat (OutputIndex inp)] @ id_bytes (iAsset inp) @ in_bytes (In inp)"

text \<open>Modelled from the spec: the encoding of a credential; a signature is told by its signer.\<close>

definition cred_bytes :: "ShortID list \<Rightarrow> nat list" where
  "cred_bytes signers = [9, length signers] @ signers"

text \<open>
  Modelled from the spec: \<open>tx.Bytes()\<close>, the canonical encoding of a signed transaction,
  every list behind its length.
\<close>

definition Bytes :: "Tx \<Rightarrow> nat list" where
  "Bytes tx =
     [0, unat (txNetworkID tx)] @ id_bytes (BlockchainID tx)
     @ [length (Outs tx)] @ concat (map toutput_bytes (Outs tx))
     @ [length (Ins tx)] @ concat (map tinput_bytes (Ins tx))
     @ [length (Creds tx)] @ concat (map cred_bytes (Creds tx))"

text \<open>
  Modelled from the spec: \<open>tx.ID()\<close>, a deterministic hash of the canonical encoding (the
  hash being collision free, the encoding itself).
\<close>

definition tx_ID :: "Tx \<Rightarrow> ID" where
  "tx_ID tx = Bytes tx"

text \<open>
  Modelled from the spec: \<open>avax.SortTransferableOutputs\<close>, the fixed order of outputs: by
  asset, then by the encoding of the output.
\<close>

definition SortTransferableOutputs :: "TransferableOutput list \<Rightarrow> TransferableOutput list" where
  "SortTransferableOutputs outs = sort_key (\<lambda>out. (oAsset out, out_bytes (oOut out))) outs"

text \<open>
  Modelled from the spec: \<open>avax.SortTransferableInputsWithSigners\<close>, the fixed order of
  inputs, each with its signers: by the transaction identifier and output index of the
  UTXO consumed.
\<close>

definition SortTransferableInputsWithSigners ::
  "TransferableInput list \<Rightarrow> ShortID list list \<Rightarrow> TransferableInput list \<times> ShortID list list" where
  "SortTransferableInputsWithSigners ins keys =
     (let sorted = sort_key (\<lambda>(inp, signers). (TxID inp, unat (OutputIndex inp))) (zip ins keys)
      in (map fst sorted, map snd sorted))"

text \<open>
  Modelled from the spec: \<open>tx.InputUTXOs()\<close>, the UTXOs the inputs consume, in the inputs'
  order.
\<close>

definition InputUTXOs :: "Tx \<Rightarrow> UTXOID list" where
  "InputUTXOs tx = map (\<lambda>inp. \<lparr>TxID = TxID inp, OutputIndex = OutputIndex inp\<rparr>) (Ins tx)"

text \<open>
  Modelled from the spec: \<open>tx.UTXOs()\<close>, one UTXO for each output, numbered from 0 in the
  outputs' order.
\<close>

definition tx_UTXOs :: "Tx \<Rightarrow> UTXO list" where
  "tx_UTXOs tx =
     map (\<lambda>(i, out). \<lparr>TxID = tx_ID tx, OutputIndex = of_nat i, Asset = oAsset out, Out = oOut out\<rparr>)
       (enumerate 0 (Outs tx))"

text \<open>
  Modelled from the spec: \<open>math.Add64\<close> is not among the sources. Overflow on accumulation
  is an error, never a wrapped sum.
\<close>

definition Add64 :: "uint64 \<Rightarrow> uint64 \<Rightarrow> error + uint64" where
  "Add64 a b = (if unat a + unat b < 2 ^ 64 then Inr (a + b) else Inl errOverflow)"

text \<open>\<open>math.MaxUint64\<close>.\<close>

definition MaxUint64 :: uint64 where
  "MaxUint64 = 18446744073709551615"

section \<open>The tester\<close>

text \<open>
  The fields of \<open>Config\<close> and of \<open>tester\<close> that the code under study reads or writes.
  \<open>MaxProcessingVtxs\<close> and \<open>processingVtxs\<close> are Go \<open>int\<close>s, taken at the width they have
  on a 64-bit platform: words of 64 bits read as signed numbers (\<open>sint\<close>, \<open><s\<close>), with
  addition and subtraction that wrap around. A slot of \<open>txs\<close> is \<open>None\<close> while it holds the
  nil pointer \<open>make\<close> put there.
\<close>

type_synonym goint = "64 word"

record tester =
  NetworkID :: uint32
  ChainID :: ID
  TxFee :: uint64
  AvaxAssetID :: ID
  MaxProcessingVtxs :: goint
  keychain :: Keychain
  utxoSet :: UTXOSet
  balance :: "ID \<rightharpoonup> uint64"
  txs :: "Tx option list"
  processingVtxs :: goint

text \<open>\<open>NewTester\<close>: an empty key store, UTXO set, balance table and sequence; no vertex processing.\<close>

definition NewTester :: "uint32 \<Rightarrow> ID \<Rightarrow> uint64 \<Rightarrow> ID \<Rightarrow> goint \<Rightarrow> tester" where
  "NewTester netID chain fee avax maxVtxs =
     \<lparr>NetworkID = netID, ChainID = chain, TxFee = fee, AvaxAssetID = avax,
      MaxProcessingVtxs = maxVtxs, keychain = [], utxoSet = emptyUTXOSet,
      balance = Map.empty, txs = [], processingVtxs = 0\<rparr>"

text \<open>Reading the balance table: a missing key reads as zero.\<close>

definition balance_of :: "tester \<Rightarrow> ID \<Rightarrow> uint64" where
  "balance_of t a = (case balance t a of None \<Rightarrow> 0 | Some b \<Rightarrow> b)"

text \<open>
  \<open>importKey\<close> is \<open>t.keychain.Add(sk)\<close>. Modelled from the spec: importing a key a second
  time adds no second address.
\<close>

definition importKey :: "tester \<Rightarrow> ShortID \<Rightarrow> tester" where
  "importKey t sk = (if sk \<in> set (keychain t) then t else t\<lparr>keychain := keychain t @ [sk]\<rparr>)"

definition addUTXO :: "tester \<Rightarrow> UTXO \<Rightarrow> tester" where
  "addUTXO t utxo =
     (case TransferableOut (Out utxo) of
        None \<Rightarrow> t
      | Some amt \<Rightarrow>
          (case Spend (keychain t) (Out utxo) MaxUint64 of
             Some _ \<Rightarrow>
               t\<lparr>utxoSet := Put (utxoSet t) utxo,
                 balance := (balance t)(AssetID utxo \<mapsto> balance_of t (AssetID utxo) + amt)\<rparr>
           | None \<Rightarrow> t))"

definition removeUTXO :: "tester \<Rightarrow> ID \<Rightarrow> error + tester" where
  "removeUTXO t utxoID =
     (case Get (utxoSet t) utxoID of
        Inl e \<Rightarrow> Inl e
      | Inr None \<Rightarrow> Inr t
      | Inr (Some utxo) \<Rightarrow>
          (case TransferableOut (Out utxo) of
             None \<Rightarrow> Inl PanicTypeAssertion
           | Some amt \<Rightarrow>
               (let assetKey = AssetID utxo;
                    newBalance = balance_of t assetKey - amt;
                    b = (if newBalance = 0 then (balance t)(assetKey := None)
                         else (balance t)(assetKey \<mapsto> newBalance))
                in case Remove (utxoSet t) utxoID of
                     Inl e \<Rightarrow> Inl e
                   | Inr (_, us) \<Rightarrow> Inr (t\<lparr>utxoSet := us, balance := b\<rparr>))))"

text \<open>The exact sum of the amounts of the UTXOs of an asset that the set holds.\<close>

definition utxo_amount :: "UTXO \<Rightarrow> nat" where
  "utxo_amount u = (case TransferableOut (Out u) of None \<Rightarrow> 0 | Some amt \<Rightarrow> unat amt)"

definition asset_sum :: "tester \<Rightarrow> ID \<Rightarrow> nat" where
  "asset_sum t a = sum_list (map utxo_amount (filter (\<lambda>u. AssetID u = a) (UTXOs (utxoSet t))))"

subsection \<open>Building a transaction\<close>

text \<open>
  The loop of \<open>createTx\<close> over \<open>t.utxoSet.UTXOs\<close>, with its three accumulators. An input of
  another asset, one the key store cannot spend at \<open>time\<close>, and one that is no
  \<open>TransferableIn\<close> are skipped; the loop stops at the first UTXO that brings the amount
  spent to \<open>amount + TxFee\<close>, a sum of 64-bit words.
\<close>

fun createTx_loop ::
  "tester \<Rightarrow> ID \<Rightarrow> uint64 \<Rightarrow> uint64 \<Rightarrow> UTXO list \<Rightarrow> uint64 \<Rightarrow> TransferableInput list
    \<Rightarrow> ShortID list list \<Rightarrow> error + (uint64 \<times> TransferableInput list \<times> ShortID list list)" where
  "createTx_loop t assetID amount time [] amountSpent ins keys = Inr (amountSpent, ins, keys)"
| "createTx_loop t assetID amount time (utxo # rest) amountSpent ins keys =
     (if AssetID utxo \<noteq> assetID then createTx_loop t assetID amount time rest amountSpent ins keys
      else case Spend (keychain t) (Out utxo) time of
        None \<Rightarrow> createTx_loop t assetID amount time rest amountSpent ins keys
      | Some (inputIntf, signers) \<Rightarrow>
          (case TransferableIn inputIntf of
             None \<Rightarrow> createTx_loop t assetID amount time rest amountSpent ins keys
           | Some inAmt \<Rightarrow>
               (case Add64 amountSpent inAmt of
                  Inl e \<Rightarrow> Inl e
                | Inr spent \<Rightarrow>
                    (let inp = \<lparr>TxID = TxID utxo, OutputIndex = OutputIndex utxo,
                                iAsset = assetID, In = inputIntf\<rparr>;
                         ins' = ins @ [inp];
                         keys' = keys @ [signers]
                     in if spent \<ge> amount + TxFee t then Inr (spent, ins', keys')
                        else createTx_loop t assetID amount time rest spent ins' keys'))))"

definition transferOutput :: "ID \<Rightarrow> uint64 \<Rightarrow> ShortID \<Rightarrow> TransferableOutput" where
  "transferOutput assetID amt addr =
     \<lparr>oAsset = assetID,
      oOut = TransferOutput amt \<lparr>Locktime = 0, Threshold = 1, Addrs = [addr]\<rparr>\<rparr>"

text \<open>
  \<open>createTx\<close> has the tester as its receiver: the model returns the tester next to the
  result, as every method does here. Signing (\<open>SignSECP256K1Fx\<close>) attaches the signers
  of each input and is taken to succeed.
\<close>

definition createTx ::
  "tester \<Rightarrow> ID \<Rightarrow> uint64 \<Rightarrow> ShortID \<Rightarrow> ShortID \<Rightarrow> uint64 \<Rightarrow> (error + Tx) \<times> tester" where
  "createTx t assetID amount destAddr changeAddr time =
     (if amount = 0 then (Inl errAmtZero, t)
      else case createTx_loop t assetID amount time (UTXOs (utxoSet t)) 0 [] [] of
        Inl e \<Rightarrow> (Inl e, t)
      | Inr (amountSpent, ins, keys) \<Rightarrow>
          if amountSpent < amount + TxFee t then (Inl errInsufficientFunds, t)
          else
            (let (ins', keys') = SortTransferableInputsWithSigners ins keys;
                 outs = [transferOutput assetID amount destAddr]
                   @ (if amountSpent > amount + TxFee t
                      then [transferOutput assetID (amountSpent - amount - TxFee t) changeAddr]
                      else []);
                 outs' = SortTransferableOutputs outs
             in (Inr \<lparr>txNetworkID = NetworkID t, BlockchainID = ChainID t,
                      Outs = outs', Ins = ins', Creds = keys'\<rparr>, t)))"

text \<open>The amount an input consumes, and the exact sum over a transaction's inputs.\<close>

definition input_amount :: "TransferableInput \<Rightarrow> nat" where
  "input_amount inp = (case In inp of TransferInput amt _ \<Rightarrow> unat amt | MintInput _ \<Rightarrow> 0)"

definition inputs_sum :: "TransferableInput list \<Rightarrow> nat" where
  "inputs_sum ins = sum_list (map input_amount ins)"

subsection \<open>Generating the sequence\<close>

fun removeUTXOs :: "tester \<Rightarrow> UTXOID list \<Rightarrow> error + tester" where
  "removeUTXOs t [] = Inr t"
| "removeUTXOs t (utxoID # rest) =
     (case removeUTXO t (InputID utxoID) of Inl e \<Rightarrow> Inl e | Inr t' \<Rightarrow> removeUTXOs t' rest)"

fun addUTXOs :: "tester \<Rightarrow> UTXO list \<Rightarrow> tester" where
  "addUTXOs t [] = t"
| "addUTXOs t (utxo # rest) = addUTXOs (addUTXO t utxo) rest"

text \<open>
  The loop of \<open>generateTxs\<close>, from index \<open>i\<close> with \<open>n\<close> transactions still to build. It
  returns the error (or panic) that stopped it, if any, and the tester as it stands then.
\<close>

fun generateTxs_loop ::
  "nat \<Rightarrow> nat \<Rightarrow> ID \<Rightarrow> ShortID \<Rightarrow> uint64 \<Rightarrow> tester \<Rightarrow> error option \<times> tester" where
  "generateTxs_loop 0 i assetID addr now t = (None, t)"
| "generateTxs_loop (Suc n) i assetID addr now t =
     (case createTx t assetID 1 addr addr now of
        (Inl e, t1) \<Rightarrow> (Some e, t1)
      | (Inr tx, t1) \<Rightarrow>
          (case removeUTXOs t1 (InputUTXOs tx) of
             Inl e \<Rightarrow> (Some e, t1)
           | Inr t2 \<Rightarrow>
               (let t3 = addUTXOs t2 (tx_UTXOs tx);
                    t4 = t3\<lparr>txs := (txs t3)[i := Some tx]\<rparr>
                in generateTxs_loop n (Suc i) assetID addr now t4)))"

text \<open>
  \<open>generateTxs\<close>; \<open>now\<close> is what \<open>t.Clock.Unix()\<close> returns. The address is the first of the
  key store. \<open>make\<close> panics on a negative length.
\<close>

definition generateTxs :: "tester \<Rightarrow> int \<Rightarrow> ID \<Rightarrow> uint64 \<Rightarrow> error option \<times> tester" where
  "generateTxs t numTxs assetID now =
     (case take 1 (keychain t) of
        [] \<Rightarrow> (Some errNoKeys, t)
      | addr # _ \<Rightarrow>
          if numTxs < 0 then (Some PanicNegativeLen, t)
          else generateTxs_loop (nat numTxs) 0 assetID addr now
                 (t\<lparr>txs := replicate (nat numTxs) None\<rparr>))"

text \<open>
  \<open>nextTxs\<close>: an error on an empty sequence; all of a sequence shorter than \<open>n\<close>, which
  the code returns without assigning to \<open>t.txs\<close>; else the first \<open>n\<close>, which are cut
  off the sequence. A negative \<open>n\<close> is out of the bounds of the slice expression.
\<close>

definition nextTxs :: "tester \<Rightarrow> int \<Rightarrow> (error + Tx option list) \<times> tester" where
  "nextTxs t n =
     (if length (txs t) = 0 then (Inl errNoRemainingTxs, t)
      else if int (length (txs t)) < n then (Inr (txs t), t)
      else if n < 0 then (Inl PanicSliceBounds, t)
      else (Inr (take (nat n) (txs t)), t\<lparr>txs := drop (nat n) (txs t)\<rparr>))"

subsection \<open>The callbacks of the consensus engine\<close>

text \<open>
  \<open>Issue\<close>, \<open>Accept\<close> and \<open>Reject\<close> all return a nil error. \<open>Accept\<close> and \<open>Reject\<close> return
  next to the tester whether they called \<open>processingVtxsCond.Signal()\<close>. The counter is
  a machine integer: \<open>Issue\<close> at the largest value gives the smallest, and the decrement
  at the smallest value gives the largest.
\<close>

definition Issue :: "tester \<Rightarrow> tester" where
  "Issue t = t\<lparr>processingVtxs := processingVtxs t + 1\<rparr>"

definition Accept :: "tester \<Rightarrow> tester \<times> bool" where
  "Accept t =
     (let t' = t\<lparr>processingVtxs := processingVtxs t - 1\<rparr>
      in (t', processingVtxs t' <s MaxProcessingVtxs t'))"

definition Reject :: "tester \<Rightarrow> tester \<times> bool" where
  "Reject t =
     (let t' = t\<lparr>processingVtxs := processingVtxs t - 1\<rparr>
      in (t', processingVtxs t' <s MaxProcessingVtxs t'))"

datatype callback = CbIssue | CbAccept | CbReject

definition run_callback :: "callback \<Rightarrow> tester \<Rightarrow> tester" where
  "run_callback cb t =
     (case cb of CbIssue \<Rightarrow> Issue t | CbAccept \<Rightarrow> fst (Accept t) | CbReject \<Rightarrow> fst (Reject t))"

text \<open>Whether a callback, run on the tester \<open>t\<close>, calls \<open>processingVtxsCond.Signal()\<close>.\<close>

definition signals :: "callback \<Rightarrow> tester \<Rightarrow> bool" where
  "signals cb t =
     (case cb of CbIssue \<Rightarrow> False | CbAccept \<Rightarrow> snd (Accept t) | CbReject \<Rightarrow> snd (Reject t))"

text \<open>
  A run of callbacks, with the history of the counter: the value it has after each
  callback, latest first; and whether any callback of the run calls \<open>Signal()\<close>.
\<close>

fun run_callbacks :: "callback list \<Rightarrow> tester \<times> goint list \<Rightarrow> tester \<times> goint list" where
  "run_callbacks [] (t, h) = (t, h)"
| "run_callbacks (cb # cbs) (t, h) =
     (let t' = run_callback cb t in run_callbacks cbs (t', processingVtxs t' # h))"

fun signalled :: "callback list \<Rightarrow> tester \<Rightarrow> bool" where
  "signalled [] t = False"
| "signalled (cb # cbs) t = (signals cb t \<or> signalled cbs (run_callback cb t))"

subsection \<open>The issuance loop\<close>

record TestConfig = UTXOID +
  NumTxs :: int
  UTXOAmount :: uint64
  Key :: ShortID
  LogFreq :: int
  BatchSize :: int

text \<open>
  The consensus engine is not among the sources; what it does during one iteration of the
  loop is a parameter of the model:
  \<^item> \<open>wakes\<close>: the callbacks other threads ran while the loop was parked in \<open>Wait()\<close>, cut
    into stretches: after a stretch in which \<open>Signal()\<close> was called the loop has woken and
    holds the lock again;
  \<^item> \<open>parse\<close>: whether \<open>VM.ParseTx\<close> accepts a transaction;
  \<^item> \<open>issue\<close>: \<open>None\<close> when \<open>Engine.Issue\<close> returns an error, else the callbacks the engine
    invoked during the call, under the lock the loop holds;
  \<^item> \<open>after\<close>: the callbacks other threads ran between \<open>Unlock()\<close> and the next \<open>Lock()\<close>.
\<close>

record iteration =
  wakes :: "callback list list"
  parse :: "Tx \<Rightarrow> bool"
  issue :: "callback list option"
  after :: "callback list"

text \<open>
  How a run ends: the loop ran to its end (\<open>Done\<close>) or found the sequence empty at index
  \<open>i\<close> (\<open>RanOut i\<close>), both returning a nil error; an error or a panic (\<open>Failed\<close>); or the
  wait that never returns (\<open>Blocked\<close>).
\<close>

datatype outcome = Done | RanOut int | Failed error | Blocked

definition returned_error :: "outcome \<Rightarrow> error option option" where
  "returned_error r =
     (case r of Done \<Rightarrow> Some None | RanOut _ \<Rightarrow> Some None | Failed e \<Rightarrow> Some (Some e)
      | Blocked \<Rightarrow> None)"

text \<open>
  The loop parked in \<open>Wait()\<close>, the counter having been found above the maximum. \<open>Wait()\<close>
  of \<open>sync.Cond\<close> returns only after a \<open>Signal()\<close> called while the loop is parked (there
  is no wake without one), and only \<open>Accept\<close> and \<open>Reject\<close> call it. After a stretch of
  callbacks in which one of them signalled, the loop holds the lock again and checks the
  counter: it leaves the wait if the counter is not above the maximum, and calls \<open>Wait()\<close>
  again if it is. After a stretch with no signal it is still parked. The flag says
  whether the wait returned; it is \<open>False\<close> when the loop is still parked after the last
  stretch.
\<close>

fun parked :: "callback list list \<Rightarrow> tester \<times> goint list \<Rightarrow> bool \<times> tester \<times> goint list" where
  "parked [] (t, h) = (False, t, h)"
| "parked (w # ws) (t, h) =
     (case run_callbacks w (t, h) of
        (t', h') \<Rightarrow>
          if signalled w t \<and> \<not> MaxProcessingVtxs t' <s processingVtxs t' then (True, t', h')
          else parked ws (t', h'))"

text \<open>
  The wait \<open>for t.processingVtxs > t.MaxProcessingVtxs { Wait() }\<close>: it is passed at once
  when the counter is not above the maximum.
\<close>

definition AwaitCapacity ::
  "callback list list \<Rightarrow> tester \<times> goint list \<Rightarrow> bool \<times> tester \<times> goint list" where
  "AwaitCapacity ws s =
     (case s of (t, h) \<Rightarrow>
        if MaxProcessingVtxs t <s processingVtxs t then parked ws (t, h) else (True, t, h))"

text \<open>The loop over the batch: \<open>tx.Bytes()\<close> on a nil transaction panics.\<close>

fun parse_txs :: "(Tx \<Rightarrow> bool) \<Rightarrow> Tx option list \<Rightarrow> error + Tx list" where
  "parse_txs ok [] = Inr []"
| "parse_txs ok (None # rest) = Inl PanicNilDereference"
| "parse_txs ok (Some tx # rest) =
     (if ok tx then (case parse_txs ok rest of Inl e \<Rightarrow> Inl e | Inr l \<Rightarrow> Inr (tx # l))
      else Inl errParseTx)"

text \<open>
  The body of the loop \<open>for i := 0; i < config.NumTxs; i++\<close> of \<open>Run\<close>. Its state is the
  tester, the history of the counter and the batches handed to \<open>Engine.Issue\<close> with
  success, in order. \<open>Inl\<close> is a return from \<open>Run\<close> (or a panic, or the wait that never
  returns), \<open>Inr\<close> the state at the end of the iteration. Any error of \<open>nextTxs\<close> is
  taken for the end of the sequence. The condition of the progress log divides by
  \<open>LogFreq\<close> unless \<open>i\<close> is the last index.
\<close>

type_synonym run_state = "tester \<times> goint list \<times> Tx list list"

definition Run_body ::
  "TestConfig \<Rightarrow> iteration \<Rightarrow> int \<Rightarrow> run_state \<Rightarrow> (outcome \<times> run_state) + run_state" where
  "Run_body cfg e i s =
     (case s of (t, h, sent) \<Rightarrow>
        (case AwaitCapacity (wakes e) (t, h) of
           (False, t1, h1) \<Rightarrow> Inl (Blocked, t1, h1, sent)
         | (True, t1, h1) \<Rightarrow>
             (case nextTxs t1 (BatchSize cfg) of
                (Inl err, t2) \<Rightarrow>
                  (if err = errNoRemainingTxs then Inl (RanOut i, t2, h1, sent)
                   else Inl (Failed err, t2, h1, sent))
              | (Inr batch, t2) \<Rightarrow>
                  (case parse_txs (parse e) batch of
                     Inl err \<Rightarrow> Inl (Failed err, t2, h1, sent)
                   | Inr snowstormTxs \<Rightarrow>
                       (case issue e of
                          None \<Rightarrow> Inl (Failed errIssueTx, t2, h1, sent)
                        | Some cbs \<Rightarrow>
                            (case run_callbacks cbs (t2, h1) of
                               (t3, h3) \<Rightarrow>
                                 if i \<noteq> NumTxs cfg - 1 \<and> LogFreq cfg = 0
                                 then Inl (Failed PanicDivideByZero, t3, h3, sent @ [snowstormTxs])
                                 else (case run_callbacks (after e) (t3, h3) of
                                         (t4, h4) \<Rightarrow> Inr (t4, h4, sent @ [snowstormTxs]))))))))"

function Run_loop ::
  "TestConfig \<Rightarrow> (int \<Rightarrow> iteration) \<Rightarrow> int \<Rightarrow> run_state \<Rightarrow> outcome \<times> run_state" where
  "Run_loop cfg env i s =
     (if i < NumTxs cfg then
        (case Run_body cfg (env i) i s of
           Inl res \<Rightarrow> res
         | Inr s' \<Rightarrow> Run_loop cfg env (i + 1) s')
      else (Done, s))"
  by pat_completeness auto
termination
  by (relation "measure (\<lambda>(cfg, env, i, s). nat (NumTxs cfg - i))") auto

declare Run_loop.simps [simp del]

text \<open>
  \<open>Run\<close>: the key is imported, the funding UTXO added, the sequence generated and the
  loop entered. \<open>now\<close> is the reading of the clock.
\<close>

definition Run ::
  "tester \<Rightarrow> TestConfig \<Rightarrow> uint64 \<Rightarrow> (int \<Rightarrow> iteration) \<Rightarrow> outcome \<times> run_state" where
  "Run t cfg now env =
     (let t1 = importKey t (Key cfg);
          t2 = addUTXO t1
                 \<lparr>TxID = TxID cfg, OutputIndex = OutputIndex cfg, Asset = AvaxAssetID t1,
                  Out = TransferOutput (UTXOAmount cfg)
                          \<lparr>Locktime = 0, Threshold = 1, Addrs = [Key cfg]\<rparr>\<rparr>
      in case generateTxs t2 (NumTxs cfg) (AvaxAssetID t2) now of
           (Some e, t3) \<Rightarrow> (Failed e, t3, [processingVtxs t3], [])
         | (None, t3) \<Rightarrow> Run_loop cfg env 0 (t3, [processingVtxs t3], []))"


section \<open>Example values\<close>

text \<open>A UTXO of the asset \<open>[0]\<close> owned by the address \<open>1\<close>, output 0 of the transaction \<open>[n]\<close>.\<close>

definition example_utxo :: "nat \<Rightarrow> uint64 \<Rightarrow> UTXO" where
  "example_utxo n amt =
     \<lparr>TxID = [n], OutputIndex = 0, Asset = [0],
      Out = TransferOutput amt \<lparr>Locktime = 0, Threshold = 1, Addrs = [1]\<rparr>\<rparr>"

text \<open>A transaction told from the others by its network identifier alone.\<close>

definition example_tx :: "nat \<Rightarrow> Tx" where
  "example_tx n =
     \<lparr>txNetworkID = of_nat n, BlockchainID = [], Outs = [], Ins = [], Creds = []\<rparr>"

text \<open>
  The tester of the repository's tests (\<open>NewTester\<close> with network 12345 and the chain
  identifier 1, 2, ..., 10), here with a fee and a maximum of processing vertices, and the
  wallet that holds the key of address \<open>1\<close>.
\<close>

definition test_tester :: "uint64 \<Rightarrow> goint \<Rightarrow> tester" where
  "test_tester fee maxVtxs = NewTester 12345 [1, 2, 3, 4, 5, 6, 7, 8, 9, 10] fee [0] maxVtxs"

definition test_wallet :: "uint64 \<Rightarrow> goint \<Rightarrow> tester" where
  "test_wallet fee maxVtxs = importKey (test_tester fee maxVtxs) 1"

text \<open>An engine that parses and issues every batch, with the given callbacks around it.\<close>

definition steady_env :: "callback list \<Rightarrow> callback list \<Rightarrow> int \<Rightarrow> iteration" where
  "steady_env cbs later i = \<lparr>wakes = [], parse = (\<lambda>tx. True), issue = Some cbs, after = later\<rparr>"

text \<open>A configuration of \<open>Run\<close> for \<open>n\<close> transactions in batches of \<open>b\<close>, logging at every index.\<close>

definition test_config :: "int \<Rightarrow> int \<Rightarrow> TestConfig" where
  "test_config n b =
     \<lparr>TxID = [1], OutputIndex = 0, NumTxs = n, UTXOAmount = 1000, Key = 1, LogFreq = 1,
      BatchSize = b\<rparr>"

text \<open>A tester about to enter the loop with the sequence of the transactions numbered \<open>ks\<close>.\<close>

definition test_run :: "goint \<Rightarrow> nat list \<Rightarrow> tester" where
  "test_run maxVtxs ks = (test_tester 0 maxVtxs)\<lparr>txs := map (\<lambda>k. Some (example_tx k)) ks\<rparr>"

text \<open>
  An engine that answers every batch with one \<open>Issue\<close> during the call, and runs the
  callbacks \<open>w\<close> whenever the loop is parked.
\<close>

definition waking_env :: "callback list \<Rightarrow> int \<Rightarrow> iteration" where
  "waking_env w i = \<lparr>wakes = [w], parse = (\<lambda>tx. True), issue = Some [CbIssue], after = []\<rparr>"

text \<open>
  An engine that calls \<open>Issue\<close> for the batches of the indices 0 and 1 only after the loop
  has released the lock at index 1.
\<close>

definition deferred_env :: "int \<Rightarrow> iteration" where
  "deferred_env i =
     \<lparr>wakes = [], parse = (\<lambda>tx. True), issue = Some [],
      after = (if i = 1 then [CbIssue, CbIssue] else [])\<rparr>"

text \<open>
  The scenario of the funding UTXO \<open>example_utxo 1 1000\<close> in the wallet of address \<open>1\<close>
  with no fee. \<open>self_payment txid idx amt\<close> is the transaction that pays one unit from the
  UTXO \<open>(txid, idx)\<close> of \<open>amt\<close> units to the wallet's own address, with the change if any;
  \<open>own_utxo tx idx amt\<close> is the UTXO of \<open>amt\<close> units that output \<open>idx\<close> of \<open>tx\<close> makes.
\<close>

definition self_payment :: "ID \<Rightarrow> uint32 \<Rightarrow> uint64 \<Rightarrow> Tx" where
  "self_payment txid idx amt =
     \<lparr>txNetworkID = 12345, BlockchainID = [1, 2, 3, 4, 5, 6, 7, 8, 9, 10],
      Outs = (if amt = 1 then [transferOutput [0] 1 1]
              else [transferOutput [0] 1 1, transferOutput [0] (amt - 1) 1]),
      Ins = [\<lparr>TxID = txid, OutputIndex = idx, iAsset = [0], In = TransferInput amt [0]\<rparr>],
      Creds = [[1]]\<rparr>"

definition own_utxo :: "Tx \<Rightarrow> uint32 \<Rightarrow> uint64 \<Rightarrow> UTXO" where
  "own_utxo tx idx amt =
     \<lparr>TxID = tx_ID tx, OutputIndex = idx, Asset = [0],
      Out = TransferOutput amt \<lparr>Locktime = 0, Threshold = 1, Addrs = [1]\<rparr>\<rparr>"

definition scenario_tx1 :: Tx where
  "scenario_tx1 = self_payment [1] 0 1000"

definition scenario_tx2 :: Tx where
  "scenario_tx2 = self_payment (tx_ID scenario_tx1) 0 1"

definition scenario_tx3 :: Tx where
  "scenario_tx3 = self_payment (tx_ID scenario_tx1) 1 999"

definition scenario_tx4 :: Tx where
  "scenario_tx4 = self_payment (tx_ID scenario_tx2) 0 1"

definition scenario_tx5 :: Tx where
  "scenario_tx5 = self_payment (tx_ID scenario_tx3) 1 998"

section \<open>The UTXO set: index and list stay in step\<close>

lemma in_sync_empty: "in_sync emptyUTXOSet"
  by (simp add: in_sync_def emptyUTXOSet_def)

lemma holds_empty: "holds emptyUTXOSet Map.empty"
  by (simp add: holds_def in_sync_empty) (simp add: emptyUTXOSet_def)

lemma in_sync_lookup:
  "in_sync us \<Longrightarrow> utxoMap us k = Some i \<Longrightarrow> i < length (UTXOs us) \<and> InputID (UTXOs us ! i) = k"
  by (simp add: in_sync_def)

lemma in_sync_index:
  "in_sync us \<Longrightarrow> i < length (UTXOs us) \<Longrightarrow> utxoMap us (InputID (UTXOs us ! i)) = Some i"
  by (simp add: in_sync_def)

lemma in_syncI:
  assumes "\<And>k i. utxoMap us k = Some i \<Longrightarrow> i < length (UTXOs us) \<and> InputID (UTXOs us ! i) = k"
    and "\<And>i. i < length (UTXOs us) \<Longrightarrow> utxoMap us (InputID (UTXOs us ! i)) = Some i"
  shows "in_sync us"
  unfolding in_sync_def using assms by blast

lemma in_sync_inj:
  assumes "in_sync us" "a < length (UTXOs us)" "b < length (UTXOs us)"
    "InputID (UTXOs us ! a) = InputID (UTXOs us ! b)"
  shows "a = b"
  using assms by (metis in_sync_index option.inject)

lemma Put_absent:
  "utxoMap us (InputID u) = None \<Longrightarrow>
   Put us u = \<lparr>utxoMap = (utxoMap us)(InputID u \<mapsto> length (UTXOs us)), UTXOs = UTXOs us @ [u]\<rparr>"
  by (simp add: Put_def)

lemma Put_present: "utxoMap us (InputID u) = Some i \<Longrightarrow> Put us u = us"
  by (simp add: Put_def)

lemma in_sync_Put:
  assumes s: "in_sync us"
  shows "in_sync (Put us u)"
proof (cases "utxoMap us (InputID u)")
  case None
  show ?thesis
  proof (rule in_syncI)
    fix k i
    assume "utxoMap (Put us u) k = Some i"
    then show "i < length (UTXOs (Put us u)) \<and> InputID (UTXOs (Put us u) ! i) = k"
      using in_sync_lookup[OF s, of k i]
      by (auto simp: Put_absent[OF None] nth_append split: if_splits)
  next
    fix i
    assume "i < length (UTXOs (Put us u))"
    then have "i < length (UTXOs us) \<or> i = length (UTXOs us)"
      by (auto simp: Put_absent[OF None])
    then show "utxoMap (Put us u) (InputID (UTXOs (Put us u) ! i)) = Some i"
    proof
      assume i: "i < length (UTXOs us)"
      then have "InputID (UTXOs us ! i) \<noteq> InputID u"
        using in_sync_index[OF s i] None by auto
      then show ?thesis
        using i in_sync_index[OF s i] by (simp add: Put_absent[OF None] nth_append)
    next
      assume "i = length (UTXOs us)"
      then show ?thesis by (simp add: Put_absent[OF None])
    qed
  qed
next
  case (Some i)
  then show ?thesis using s by (simp add: Put_present)
qed

lemma holds_Put:
  assumes h: "holds us m"
  shows "holds (Put us u) (if m (InputID u) = None then m(InputID u \<mapsto> u) else m)"
proof -
  from h have s: "in_sync us"
    and m: "\<And>k. m k = (case utxoMap us k of None \<Rightarrow> None | Some i \<Rightarrow> Some (UTXOs us ! i))"
    by (simp_all add: holds_def)
  show ?thesis
  proof (cases "utxoMap us (InputID u)")
    case None
    then have mn: "m (InputID u) = None" by (simp add: m)
    have lt: "\<And>k i. utxoMap us k = Some i \<Longrightarrow> i < length (UTXOs us)"
      using in_sync_lookup[OF s] by blast
    have "\<And>k. (m(InputID u \<mapsto> u)) k =
        (case utxoMap (Put us u) k of None \<Rightarrow> None | Some i \<Rightarrow> Some (UTXOs (Put us u) ! i))"
      using lt by (auto simp: Put_absent[OF None] m nth_append split: option.splits)
    then show ?thesis
      using mn in_sync_Put[OF s, of u] by (simp add: holds_def)
  next
    case (Some i)
    then have "m (InputID u) \<noteq> None" by (simp add: m)
    then show ?thesis using h Some by (auto simp: Put_present)
  qed
qed

lemma in_sync_Remove:
  assumes s: "in_sync us" and k: "utxoMap us k = Some i"
  shows "\<exists>us'. Remove us k = Inr (Some (UTXOs us ! i), us')
     \<and> UTXOs us' = butlast ((UTXOs us)[i := last (UTXOs us)])
     \<and> utxoMap us' = ((utxoMap us)(InputID (last (UTXOs us)) \<mapsto> i))(k := None)
     \<and> in_sync us'"
proof -
  let ?l = "UTXOs us"
  let ?j = "length ?l - 1"
  from in_sync_lookup[OF s k] have i: "i < length ?l" and ki: "InputID (?l ! i) = k" by simp_all
  then have ne: "?l \<noteq> []" by auto
  then have lastj: "?l ! ?j = last ?l" by (simp add: last_conv_nth)
  have j: "?j < length ?l" using ne by simp
  define us' where "us' = \<lparr>utxoMap = ((utxoMap us)(InputID (last ?l) \<mapsto> i))(k := None),
     UTXOs = butlast (?l[i := last ?l])\<rparr>"
  have bl: "take ?j (?l[i := last ?l]) = butlast (?l[i := last ?l])"
    by (simp add: butlast_conv_take)
  have R: "Remove us k = Inr (Some (?l ! i), us')"
    using k i ki lastj bl by (simp add: Remove_def Let_def us'_def)
  have len: "length (UTXOs us') = ?j" by (simp add: us'_def)
  have nth: "\<And>a. a < ?j \<Longrightarrow> UTXOs us' ! a = (if a = i then last ?l else ?l ! a)"
    by (simp add: us'_def nth_butlast nth_list_update)
  have "in_sync us'"
  proof (rule in_syncI)
    fix k' i'
    assume a: "utxoMap us' k' = Some i'"
    then have kk: "k' \<noteq> k" by (auto simp: us'_def split: if_splits)
    show "i' < length (UTXOs us') \<and> InputID (UTXOs us' ! i') = k'"
    proof (cases "k' = InputID (last ?l)")
      case True
      then have ii: "i' = i" using a kk by (simp add: us'_def)
      have "i \<noteq> ?j" using True kk ki lastj by auto
      then have "i < ?j" using i by simp
      then show ?thesis using ii True by (simp add: len nth)
    next
      case False
      then have b: "utxoMap us k' = Some i'" using a kk by (simp add: us'_def)
      from in_sync_lookup[OF s b] have i': "i' < length ?l" and e: "InputID (?l ! i') = k'"
        by simp_all
      have "i' \<noteq> ?j" using False e lastj by auto
      then have "i' < ?j" using i' by simp
      moreover have "i' \<noteq> i" using e ki kk by auto
      ultimately show ?thesis using e by (simp add: len nth)
    qed
  next
    fix a
    assume "a < length (UTXOs us')"
    then have a: "a < ?j" by (simp add: len)
    then have al: "a < length ?l" by simp
    show "utxoMap us' (InputID (UTXOs us' ! a)) = Some a"
    proof (cases "a = i")
      case True
      have "InputID (last ?l) \<noteq> k"
        using in_sync_inj[OF s j i] lastj ki a True by auto
      then show ?thesis using a True by (simp add: nth) (simp add: us'_def)
    next
      case False
      have n1: "InputID (?l ! a) \<noteq> k" using in_sync_inj[OF s al i] ki False by auto
      have n2: "InputID (?l ! a) \<noteq> InputID (last ?l)"
        using in_sync_inj[OF s al j] lastj a by auto
      show ?thesis
        using a False n1 n2 in_sync_index[OF s al] by (simp add: nth) (simp add: us'_def)
    qed
  qed
  then show ?thesis using R by (auto simp: us'_def)
qed


lemma holds_Remove:
  assumes h: "holds us m"
  shows "\<exists>us'. Remove us k = Inr (m k, us') \<and> holds us' (m(k := None))"
proof -
  from h have s: "in_sync us"
    and m: "\<And>k. m k = (case utxoMap us k of None \<Rightarrow> None | Some i \<Rightarrow> Some (UTXOs us ! i))"
    by (simp_all add: holds_def)
  let ?l = "UTXOs us"
  let ?j = "length ?l - 1"
  show ?thesis
  proof (cases "utxoMap us k")
    case None
    then have "m k = None" by (simp add: m)
    then have "m(k := None) = m" by auto
    then show ?thesis using None h \<open>m k = None\<close> by (simp add: Remove_def)
  next
    case (Some i)
    from in_sync_Remove[OF s Some] obtain us' where
      R: "Remove us k = Inr (Some (?l ! i), us')"
      and l': "UTXOs us' = butlast (?l[i := last ?l])"
      and m': "utxoMap us' = ((utxoMap us)(InputID (last ?l) \<mapsto> i))(k := None)"
      and s': "in_sync us'" by blast
    from in_sync_lookup[OF s Some] have i: "i < length ?l" and ki: "InputID (?l ! i) = k"
      by simp_all
    then have ne: "?l \<noteq> []" by auto
    then have lastj: "?l ! ?j = last ?l" by (simp add: last_conv_nth)
    have j: "?j < length ?l" using ne by simp
    have nth: "\<And>a. a < ?j \<Longrightarrow> UTXOs us' ! a = (if a = i then last ?l else ?l ! a)"
      by (simp add: l' nth_butlast nth_list_update)
    have mk: "m k = Some (?l ! i)" using Some by (simp add: m)
    have "(m(k := None)) k' =
        (case utxoMap us' k' of None \<Rightarrow> None | Some a \<Rightarrow> Some (UTXOs us' ! a))" for k'
    proof (cases "k' = k")
      case True
      then show ?thesis by (simp add: m')
    next
      case nk: False
      show ?thesis
      proof (cases "k' = InputID (last ?l)")
        case True
        have "i \<noteq> ?j" using True nk ki lastj by auto
        then have ij: "i < ?j" using i by simp
        have "utxoMap us k' = Some ?j" using True in_sync_index[OF s j] lastj by simp
        then have "m k' = Some (last ?l)" using lastj by (simp add: m)
        then show ?thesis using nk True ij by (simp add: m' nth)
      next
        case False
        show ?thesis
        proof (cases "utxoMap us k'")
          case None
          then show ?thesis using nk False by (simp add: m' m)
        next
          case (Some a)
          from in_sync_lookup[OF s Some] have a: "a < length ?l" and e: "InputID (?l ! a) = k'"
            by simp_all
          have "a \<noteq> ?j" using False e lastj by auto
          then have "a < ?j" using a by simp
          moreover have "a \<noteq> i" using e ki nk by auto
          ultimately show ?thesis using nk False Some by (simp add: m' m nth)
        qed
      qed
    qed
    then have "holds us' (m(k := None))" using s' by (simp add: holds_def)
    then show ?thesis using R mk by auto
  qed
qed

lemma run_ops_holds:
  "holds us m \<Longrightarrow> \<exists>us'. run_ops us ops = Inr us' \<and> holds us' (put_not_removed m ops)"
proof (induction ops arbitrary: us m)
  case Nil
  then show ?case by simp
next
  case (Cons op ops)
  show ?case
  proof (cases op)
    case (OpPut u)
    from holds_Put[OF Cons.prems, of u] Cons.IH show ?thesis
      unfolding OpPut by simp
  next
    case (OpRemove k)
    from holds_Remove[OF Cons.prems, of k] obtain us' where
      "Remove us k = Inr (m k, us')" "holds us' (m(k := None))" by blast
    then show ?thesis using Cons.IH[of us' "m(k := None)"] unfolding OpRemove
      by (simp del: fun_upd_apply)
  qed
qed

lemma holds_Get:
  assumes "holds us m" shows "Get us k = Inr (m k)"
proof -
  from assms have s: "in_sync us"
    and m: "\<And>k. m k = (case utxoMap us k of None \<Rightarrow> None | Some i \<Rightarrow> Some (UTXOs us ! i))"
    by (simp_all add: holds_def)
  show ?thesis
  proof (cases "utxoMap us k")
    case None
    then show ?thesis by (simp add: Get_def m)
  next
    case (Some i)
    then show ?thesis using in_sync_lookup[OF s Some] by (simp add: Get_def m)
  qed
qed

lemma holds_set: 
  assumes "holds us m" shows "set (UTXOs us) = ran m"
proof -
  from assms have s: "in_sync us"
    and m: "\<And>k. m k = (case utxoMap us k of None \<Rightarrow> None | Some i \<Rightarrow> Some (UTXOs us ! i))"
    by (simp_all add: holds_def)
  show ?thesis
  proof (intro set_eqI iffI)
    fix u assume "u \<in> set (UTXOs us)"
    then obtain i where i: "i < length (UTXOs us)" "UTXOs us ! i = u"
      by (auto simp: in_set_conv_nth)
    then have "m (InputID u) = Some u" using in_sync_index[OF s i(1)] by (simp add: m)
    then show "u \<in> ran m" by (auto simp: ran_def)
  next
    fix u assume "u \<in> ran m"
    then obtain k where "m k = Some u" by (auto simp: ran_def)
    then obtain i where "utxoMap us k = Some i" "UTXOs us ! i = u"
      by (auto simp: m split: option.splits)
    then show "u \<in> set (UTXOs us)" using in_sync_lookup[OF s, of k i] by auto
  qed
qed

lemma in_sync_distinct: "in_sync us \<Longrightarrow> distinct (map InputID (UTXOs us))"
  by (auto simp: distinct_conv_nth dest: in_sync_inj)

text \<open>
  Claim C5. Whatever sequence of \<open>Put\<close> and \<open>Remove\<close> operations is run on an empty UTXO
  set, no operation panics and index map and list stay in step: every index entry points
  to the position of its UTXO, no identifier occurs twice in the list, the list holds
  exactly the UTXOs that were put and not yet removed, and \<open>Get\<close> finds exactly those.
  Removing the UTXO at position \<open>i\<close> of such a set returns it, moves the last UTXO to
  position \<open>i\<close>, gives the moved UTXO the index \<open>i\<close>, keeps index and list in step and
  leaves the removed identifier absent from \<open>Get\<close>; removing an unknown identifier
  changes nothing.
\<close>

theorem UTXOSet_index_and_list_in_sync:
  "\<exists>us. run_ops emptyUTXOSet ops = Inr us
     \<and> in_sync us
     \<and> distinct (map InputID (UTXOs us))
     \<and> set (UTXOs us) = ran (put_not_removed Map.empty ops)
     \<and> (\<forall>k. Get us k = Inr (put_not_removed Map.empty ops k))
     \<and> (\<forall>k i. utxoMap us k = Some i \<longrightarrow>
          (\<exists>us'. Remove us k = Inr (Some (UTXOs us ! i), us')
             \<and> UTXOs us' = butlast ((UTXOs us)[i := last (UTXOs us)])
             \<and> (i < length (UTXOs us) - 1 \<longrightarrow> utxoMap us' (InputID (last (UTXOs us))) = Some i)
             \<and> in_sync us' \<and> Get us' k = Inr None))
     \<and> (\<forall>k. utxoMap us k = None \<longrightarrow> Remove us k = Inr (None, us))"
proof -
  from run_ops_holds[OF holds_empty, of ops] obtain us where
    r: "run_ops emptyUTXOSet ops = Inr us" and h: "holds us (put_not_removed Map.empty ops)"
    by blast
  from h have s: "in_sync us" by (simp add: holds_def)
  have rem: "\<exists>us'. Remove us k = Inr (Some (UTXOs us ! i), us')
             \<and> UTXOs us' = butlast ((UTXOs us)[i := last (UTXOs us)])
             \<and> (i < length (UTXOs us) - 1 \<longrightarrow> utxoMap us' (InputID (last (UTXOs us))) = Some i)
             \<and> in_sync us' \<and> Get us' k = Inr None"
    if k: "utxoMap us k = Some i" for k i
  proof -
    from in_sync_Remove[OF s k] obtain us' where
      R: "Remove us k = Inr (Some (UTXOs us ! i), us')"
      and l': "UTXOs us' = butlast ((UTXOs us)[i := last (UTXOs us)])"
      and m': "utxoMap us' = ((utxoMap us)(InputID (last (UTXOs us)) \<mapsto> i))(k := None)"
      and s': "in_sync us'" by blast
    from in_sync_lookup[OF s k] have i: "i < length (UTXOs us)" and ki: "InputID (UTXOs us ! i) = k"
      by simp_all
    have "InputID (last (UTXOs us)) \<noteq> k" if "i < length (UTXOs us) - 1"
    proof -
      have "UTXOs us \<noteq> []" using i by auto
      then have "last (UTXOs us) = UTXOs us ! (length (UTXOs us) - 1)" by (simp add: last_conv_nth)
      moreover have "length (UTXOs us) - 1 < length (UTXOs us)" using i by simp
      ultimately show ?thesis
        using in_sync_inj[OF s _ i, of "length (UTXOs us) - 1"] that ki by auto
    qed
    then have "i < length (UTXOs us) - 1 \<longrightarrow> utxoMap us' (InputID (last (UTXOs us))) = Some i"
      by (simp add: m')
    moreover have "Get us' k = Inr None" by (simp add: Get_def m')
    ultimately show ?thesis using R l' s' by blast
  qed
  have "\<forall>k. utxoMap us k = None \<longrightarrow> Remove us k = Inr (None, us)"
    by (simp add: Remove_def)
  then show ?thesis
    using r s in_sync_distinct[OF s] holds_set[OF h] holds_Get[OF h] rem by blast
qed

text \<open>The set after three puts, a repeated put and a removal.\<close>

lemma run_ops_example: "run_ops emptyUTXOSet [OpPut (example_utxo 1 10), OpPut (example_utxo 2 20), OpPut (example_utxo 3 30),
         OpPut (example_utxo 2 20), OpRemove (InputID (example_utxo 1 10))] = Inr X \<Longrightarrow> UTXOs X = [example_utxo 3 30, example_utxo 2 20]
  \<and> utxoMap X (InputID (example_utxo 3 30)) = Some 0"
  apply (simp add: emptyUTXOSet_def Put_def Remove_def InputID_def Prefix_def example_utxo_def)
  apply auto
  done

theorem UTXOSet_index_and_list_in_sync_witness:
  "\<exists>us. run_ops emptyUTXOSet
       [OpPut (example_utxo 1 10), OpPut (example_utxo 2 20), OpPut (example_utxo 3 30),
         OpPut (example_utxo 2 20), OpRemove (InputID (example_utxo 1 10))] = Inr us
     \<and> UTXOs us = [example_utxo 3 30, example_utxo 2 20]
     \<and> utxoMap us (InputID (example_utxo 3 30)) = Some 0
     \<and> in_sync us
     \<and> Get us (InputID (example_utxo 1 10)) = Inr None
     \<and> Get us (InputID (example_utxo 2 20)) = Inr (Some (example_utxo 2 20))
     \<and> (\<exists>us'. Remove us (InputID (example_utxo 3 30)) = Inr (Some (example_utxo 3 30), us')
           \<and> UTXOs us' = [example_utxo 2 20]
           \<and> utxoMap us' (InputID (example_utxo 2 20)) = Some 0
           \<and> Get us' (InputID (example_utxo 3 30)) = Inr None)"
proof -
  let ?ops = "[OpPut (example_utxo 1 10), OpPut (example_utxo 2 20), OpPut (example_utxo 3 30),
         OpPut (example_utxo 2 20), OpRemove (InputID (example_utxo 1 10))]"
  from UTXOSet_index_and_list_in_sync[of ?ops] obtain us where
    r: "run_ops emptyUTXOSet ?ops = Inr us" and s: "in_sync us"
    and g: "\<And>k. Get us k = Inr (put_not_removed Map.empty ?ops k)"
    and rm: "\<And>k i. utxoMap us k = Some i \<Longrightarrow>
          (\<exists>us'. Remove us k = Inr (Some (UTXOs us ! i), us')
             \<and> UTXOs us' = butlast ((UTXOs us)[i := last (UTXOs us)])
             \<and> (i < length (UTXOs us) - 1 \<longrightarrow> utxoMap us' (InputID (last (UTXOs us))) = Some i)
             \<and> in_sync us' \<and> Get us' k = Inr None)"
    by blast
  from run_ops_example[OF r] have l: "UTXOs us = [example_utxo 3 30, example_utxo 2 20]"
    and m: "utxoMap us (InputID (example_utxo 3 30)) = Some 0" by simp_all
  have g1: "Get us (InputID (example_utxo 1 10)) = Inr None"
    by (simp add: g InputID_def Prefix_def example_utxo_def)
  have g2: "Get us (InputID (example_utxo 2 20)) = Inr (Some (example_utxo 2 20))"
    by (simp add: g InputID_def Prefix_def example_utxo_def)
  from rm[OF m] l have "\<exists>us'. Remove us (InputID (example_utxo 3 30)) = Inr (Some (example_utxo 3 30), us')
           \<and> UTXOs us' = [example_utxo 2 20]
           \<and> utxoMap us' (InputID (example_utxo 2 20)) = Some 0
           \<and> Get us' (InputID (example_utxo 3 30)) = Inr None"
    by auto
  then show ?thesis using r l m s g1 g2 by blast
qed

section \<open>Evaluating the model on concrete values\<close>

lemmas wallet_defs = test_wallet_def test_tester_def NewTester_def importKey_def emptyUTXOSet_def
lemmas spend_defs = Spend_def Match_def TransferableOut_def TransferableIn_def MaxUint64_def
lemmas id_defs = InputID_def Prefix_def AssetID_def example_utxo_def
lemmas tx_defs = createTx_def Add64_def SortTransferableInputsWithSigners_def SortTransferableOutputs_def
  transferOutput_def out_bytes_def owners_bytes_def InputUTXOs_def tx_UTXOs_def tx_ID_def Bytes_def
  id_bytes_def toutput_bytes_def tinput_bytes_def in_bytes_def cred_bytes_def
lemmas utxo_defs = addUTXO_def removeUTXO_def Put_def Get_def Remove_def balance_of_def

section \<open>The wallet: adding a UTXO\<close>

text \<open>
  Claim C10. For a UTXO whose output is not a transferable output, or which the key store
  cannot spend even at the reference time \<open>MaxUint64\<close>, \<open>addUTXO\<close> returns the tester
  unchanged: the UTXO set and the balance table are as before, and so is the balance of
  the UTXO's asset.
\<close>

theorem addUTXO_unspendable_is_noop:
  "TransferableOut (Out utxo) = None \<or> Spend (keychain t) (Out utxo) MaxUint64 = None \<Longrightarrow>
   addUTXO t utxo = t \<and> utxoSet (addUTXO t utxo) = utxoSet t \<and> balance (addUTXO t utxo) = balance t
   \<and> balance_of (addUTXO t utxo) (AssetID utxo) = balance_of t (AssetID utxo)"
  by (auto simp: addUTXO_def split: option.splits)

theorem addUTXO_unspendable_is_noop_witness:
  "TransferableOut (Out \<lparr>TxID = Prefix [] 0, OutputIndex = 0, Asset = Prefix [] 1, Out = NilOut\<rparr>) = None
   \<and> addUTXO (test_tester 0 50) \<lparr>TxID = Prefix [] 0, OutputIndex = 0, Asset = Prefix [] 1, Out = NilOut\<rparr>
       = test_tester 0 50
   \<and> balance_of (addUTXO (test_tester 0 50)
         \<lparr>TxID = Prefix [] 0, OutputIndex = 0, Asset = Prefix [] 1, Out = NilOut\<rparr>) (Prefix [] 1) = 0
   \<and> TransferableOut (Out (example_utxo 1 1000)) = Some 1000
   \<and> Spend (keychain (test_tester 0 50)) (Out (example_utxo 1 1000)) MaxUint64 = None
   \<and> addUTXO (test_tester 0 50) (example_utxo 1 1000) = test_tester 0 50"
proof -
  let ?u = "\<lparr>TxID = Prefix [] 0, OutputIndex = 0, Asset = Prefix [] 1, Out = NilOut\<rparr>"
  have a: "TransferableOut (Out ?u) = None" by (simp add: TransferableOut_def)
  have b: "Spend (keychain (test_tester 0 50)) (Out (example_utxo 1 1000)) MaxUint64 = None"
    by (simp add: spend_defs wallet_defs example_utxo_def)
  have c: "balance_of (test_tester 0 50) (Prefix [] 1) = 0"
    by (simp add: balance_of_def wallet_defs)
  have d: "TransferableOut (Out (example_utxo 1 1000)) = Some 1000"
    by (simp add: TransferableOut_def example_utxo_def)
  from addUTXO_unspendable_is_noop[of ?u "test_tester 0 50"] a
  have e: "addUTXO (test_tester 0 50) ?u = test_tester 0 50" by blast
  from addUTXO_unspendable_is_noop[of "example_utxo 1 1000" "test_tester 0 50"] b
  have f: "addUTXO (test_tester 0 50) (example_utxo 1 1000) = test_tester 0 50" by blast
  show ?thesis using a b c d e f by simp
qed

lemma in_sync_absent:
  assumes "in_sync us" "k \<notin> InputID ` set (UTXOs us)"
  shows "utxoMap us k = None"
proof (cases "utxoMap us k")
  case None then show ?thesis .
next
  case (Some i)
  from in_sync_lookup[OF assms(1) Some] assms(2) show ?thesis
    by (metis image_eqI nth_mem)
qed

lemma asset_sum_alt:
  "asset_sum t a = sum_list (map (\<lambda>u. if AssetID u = a then utxo_amount u else 0) (UTXOs (utxoSet t)))"
  by (simp add: asset_sum_def sum_list_map_filter')

lemma sum_list_swap_remove:
  fixes h :: "'a \<Rightarrow> nat"
  assumes "i < length l"
  shows "sum_list (map h (butlast (l[i := last l]))) + h (l ! i) = sum_list (map h l)"
proof (cases l rule: rev_cases)
  case Nil
  with assms show ?thesis by simp
next
  case (snoc xs y)
  show ?thesis
  proof (cases "i = length xs")
    case True
    then show ?thesis by (simp add: snoc)
  next
    case False
    with assms snoc have i: "i < length xs" by simp
    have "sum_list (map h (xs[i := y])) + h (xs ! i) = sum_list (map h xs) + h y"
      using i
    proof (induction xs arbitrary: i)
      case Nil
      then show ?case by simp
    next
      case (Cons x xs)
      then show ?case by (cases i) (auto simp: add.assoc add.left_commute)
    qed
    then show ?thesis using i by (simp add: snoc list_update_append nth_append)
  qed
qed

text \<open>
  The balance table holds, for every asset, the sum of the amounts in the set, as a
  64-bit word. Adding a UTXO that the set does not hold yet keeps it so, and so does
  removing one.
\<close>

lemma addUTXO_fresh_keeps_balance:
  assumes s: "in_sync (utxoSet t)" and fresh: "InputID u \<notin> InputID ` set (UTXOs (utxoSet t))"
    and b: "\<forall>a. balance_of t a = of_nat (asset_sum t a)"
  shows "\<forall>a. balance_of (addUTXO t u) a = of_nat (asset_sum (addUTXO t u) a)"
proof (cases "TransferableOut (Out u)")
  case None
  then show ?thesis using b by (simp add: addUTXO_def)
next
  case (Some amt)
  show ?thesis
  proof (cases "Spend (keychain t) (Out u) MaxUint64")
    case None
    then show ?thesis using b Some by (simp add: addUTXO_def)
  next
    case sp: (Some x)
    have n: "utxoMap (utxoSet t) (InputID u) = None" by (rule in_sync_absent[OF s fresh])
    have a: "addUTXO t u = t\<lparr>utxoSet := Put (utxoSet t) u,
        balance := (balance t)(AssetID u \<mapsto> balance_of t (AssetID u) + amt)\<rparr>"
      by (simp add: addUTXO_def Some sp)
    have l: "UTXOs (Put (utxoSet t) u) = UTXOs (utxoSet t) @ [u]" by (simp add: Put_absent[OF n])
    have ua: "utxo_amount u = unat amt" by (simp add: utxo_amount_def Some)
    show ?thesis
    proof
      fix a'
      have sum: "asset_sum (addUTXO t u) a' = asset_sum t a' + (if AssetID u = a' then unat amt else 0)"
        by (simp add: a asset_sum_alt l ua)
      have bal: "balance_of (addUTXO t u) a'
          = (if AssetID u = a' then balance_of t a' + amt else balance_of t a')"
        by (simp add: a balance_of_def)
      show "balance_of (addUTXO t u) a' = of_nat (asset_sum (addUTXO t u) a')"
        unfolding sum bal using b[rule_format, of a'] by simp
    qed
  qed
qed

lemma removeUTXO_keeps_balance:
  assumes s: "in_sync (utxoSet t)" and b: "\<forall>a. balance_of t a = of_nat (asset_sum t a)"
    and r: "removeUTXO t k = Inr t'"
  shows "\<forall>a. balance_of t' a = of_nat (asset_sum t' a)"
proof (cases "utxoMap (utxoSet t) k")
  case None
  then have "t' = t" using r by (simp add: removeUTXO_def Get_def)
  then show ?thesis using b by simp
next
  case (Some i)
  let ?l = "UTXOs (utxoSet t)"
  from in_sync_lookup[OF s Some] have i: "i < length ?l" by simp
  have G: "Get (utxoSet t) k = Inr (Some (?l ! i))" using Some i by (simp add: Get_def)
  from in_sync_Remove[OF s Some] obtain us where
    R: "Remove (utxoSet t) k = Inr (Some (?l ! i), us)"
    and l': "UTXOs us = butlast (?l[i := last ?l])" by blast
  from r G obtain amt where out: "TransferableOut (Out (?l ! i)) = Some amt"
    by (auto simp: removeUTXO_def split: option.splits)
  let ?k = "AssetID (?l ! i)"
  have t': "t' = t\<lparr>utxoSet := us,
      balance := (if balance_of t ?k - amt = 0 then (balance t)(?k := None)
                  else (balance t)(?k \<mapsto> balance_of t ?k - amt))\<rparr>"
    using r by (simp add: removeUTXO_def G R out Let_def)
  have ua: "utxo_amount (?l ! i) = unat amt" by (simp add: utxo_amount_def out)
  show ?thesis
  proof
    fix a
    let ?h = "\<lambda>u. if AssetID u = a then utxo_amount u else 0"
    from sum_list_swap_remove[OF i, of ?h] have
      sum: "asset_sum t' a + ?h (?l ! i) = asset_sum t a"
      by (simp add: asset_sum_alt t' l')
    have bal: "balance_of t' a = (if a = ?k then balance_of t a - amt else balance_of t a)"
      unfolding t' by (simp add: balance_of_def)
    show "balance_of t' a = of_nat (asset_sum t' a)"
    proof (cases "a = ?k")
      case True
      with sum ua have "asset_sum t a = asset_sum t' a + unat amt" by simp
      then have "balance_of t a - amt = of_nat (asset_sum t' a)"
        using b[rule_format, of a] by simp
      then show ?thesis using True bal by simp
    next
      case False
      with sum have "asset_sum t a = asset_sum t' a" by simp
      then show ?thesis using False b[rule_format, of a] bal by simp
    qed
  qed
qed

text \<open>
  Claim C6 asks the balance table to equal the sum of the amounts in the set after every
  \<open>addUTXO\<close>. Adding twice the same spendable UTXO of 1000 units to the empty wallet
  leaves one UTXO in the set, since \<open>Put\<close> ignores an identifier it knows, while the
  balance of its asset is raised twice: the set sums to 1000 and the table says 2000.
  (For a UTXO the set does not hold, \<open>addUTXO_fresh_keeps_balance\<close> above keeps the two
  equal as 64-bit words.)
\<close>

theorem addUTXO_twice_balance_differs_from_sum:
  "UTXOs (utxoSet (addUTXO (addUTXO (test_wallet 0 50) (example_utxo 1 1000)) (example_utxo 1 1000)))
     = [example_utxo 1 1000]
   \<and> asset_sum (addUTXO (addUTXO (test_wallet 0 50) (example_utxo 1 1000)) (example_utxo 1 1000)) [0] = 1000
   \<and> balance_of (addUTXO (addUTXO (test_wallet 0 50) (example_utxo 1 1000)) (example_utxo 1 1000)) [0] = 2000"
  by (simp add: addUTXO_def Put_def asset_sum_def utxo_amount_def balance_of_def spend_defs wallet_defs id_defs)

section \<open>Building a transaction\<close>

lemma createTx_snd: "snd (createTx t assetID amount destAddr changeAddr time) = t"
  by (simp add: createTx_def Let_def split: sum.splits prod.splits)

text \<open>
  Claim C9. A call of \<open>createTx\<close>, successful or not, returns the tester it was given:
  the UTXO set and the balance table are unchanged by the call. Its caller applies the
  effects afterwards: when the build fails, \<open>generateTxs\<close> stops with that error and with
  the wallet exactly as it was before the call; when it succeeds, the caller removes the
  consumed UTXOs and adds the produced ones, starting from the unchanged wallet.
\<close>

theorem createTx_leaves_wallet_unchanged:
  "snd (createTx t assetID amount destAddr changeAddr time) = t
   \<and> utxoSet (snd (createTx t assetID amount destAddr changeAddr time)) = utxoSet t
   \<and> balance (snd (createTx t assetID amount destAddr changeAddr time)) = balance t
   \<and> (\<forall>e. fst (createTx t assetID 1 addr addr now) = Inl e \<longrightarrow>
          generateTxs_loop (Suc n) i assetID addr now t = (Some e, t))
   \<and> (\<forall>tx t2. fst (createTx t assetID 1 addr addr now) = Inr tx
          \<and> removeUTXOs t (InputUTXOs tx) = Inr t2 \<longrightarrow>
          generateTxs_loop (Suc n) i assetID addr now t =
            generateTxs_loop n (Suc i) assetID addr now
              ((addUTXOs t2 (tx_UTXOs tx))\<lparr>txs := (txs (addUTXOs t2 (tx_UTXOs tx)))[i := Some tx]\<rparr>))"
proof -
  have s: "\<And>a d c tm. snd (createTx t assetID a d c tm) = t" by (rule createTx_snd)
  have f: "generateTxs_loop (Suc n) i assetID addr now t = (Some e, t)"
    if "fst (createTx t assetID 1 addr addr now) = Inl e" for e
    using that s[of 1 addr addr now]
    by (cases "createTx t assetID 1 addr addr now") simp
  have g: "generateTxs_loop (Suc n) i assetID addr now t =
            generateTxs_loop n (Suc i) assetID addr now
              ((addUTXOs t2 (tx_UTXOs tx))\<lparr>txs := (txs (addUTXOs t2 (tx_UTXOs tx)))[i := Some tx]\<rparr>)"
    if "fst (createTx t assetID 1 addr addr now) = Inr tx" "removeUTXOs t (InputUTXOs tx) = Inr t2"
    for tx t2
    using that s[of 1 addr addr now]
    by (cases "createTx t assetID 1 addr addr now") (simp add: Let_def)
  show ?thesis using s f g by simp
qed

theorem createTx_leaves_wallet_unchanged_witness:
  "createTx (test_wallet 0 50) [0] 1 1 1 0 = (Inl errInsufficientFunds, test_wallet 0 50)
   \<and> generateTxs_loop (Suc 4) 0 [0] 1 0 (test_wallet 0 50) = (Some errInsufficientFunds, test_wallet 0 50)
   \<and> (\<exists>tx. fst (createTx (addUTXO (test_wallet 0 50) (example_utxo 1 1000)) [0] 1000 1 1 MaxUint64) = Inr tx)
   \<and> balance_of (snd (createTx (addUTXO (test_wallet 0 50) (example_utxo 1 1000)) [0] 1000 1 1 MaxUint64)) [0]
       = 1000"
proof -
  have a: "fst (createTx (test_wallet 0 50) [0] 1 1 1 0) = Inl errInsufficientFunds"
    by (simp add: createTx_def wallet_defs)
  have b: "\<exists>tx. fst (createTx (addUTXO (test_wallet 0 50) (example_utxo 1 1000)) [0] 1000 1 1 MaxUint64) = Inr tx"
    by (simp add: tx_defs utxo_defs wallet_defs spend_defs id_defs)
  have c: "balance_of (addUTXO (test_wallet 0 50) (example_utxo 1 1000)) [0] = 1000"
    by (simp add: utxo_defs wallet_defs spend_defs id_defs)
  note th = createTx_leaves_wallet_unchanged[of "test_wallet 0 50" "[0]" 1 1 1 0 1 0 4 0]
  from th a have d: "generateTxs_loop (Suc 4) 0 [0] 1 0 (test_wallet 0 50) = (Some errInsufficientFunds, test_wallet 0 50)"
    by blast
  from th a have e: "createTx (test_wallet 0 50) [0] 1 1 1 0 = (Inl errInsufficientFunds, test_wallet 0 50)"
    by (metis prod.collapse)
  from createTx_leaves_wallet_unchanged[of "addUTXO (test_wallet 0 50) (example_utxo 1 1000)" "[0]" 1000 1 1 MaxUint64]
  have f: "snd (createTx (addUTXO (test_wallet 0 50) (example_utxo 1 1000)) [0] 1000 1 1 MaxUint64)
     = addUTXO (test_wallet 0 50) (example_utxo 1 1000)" by blast
  show ?thesis using b c d e f by simp
qed

lemma Add64_Inr: "Add64 a b = Inr c \<Longrightarrow> unat c = unat a + unat b"
  by (auto simp: Add64_def unat_word_ariths split: if_splits)

lemma inputs_sum_append: "inputs_sum (ins @ [inp]) = inputs_sum ins + input_amount inp"
  by (simp add: inputs_sum_def)

lemma createTx_loop_sum:
  assumes "createTx_loop t a amount time utxos spent ins keys = Inr (spent', ins', keys')"
    "inputs_sum ins = unat spent" "length ins = length keys"
  shows "inputs_sum ins' = unat spent' \<and> length ins' = length keys'"
  using assms
proof (induction utxos arbitrary: spent ins keys)
  case Nil
  then show ?case by simp
next
  case (Cons utxo rest)
  show ?case
  proof (cases "AssetID utxo \<noteq> a \<or> Spend (keychain t) (Out utxo) time = None")
    case True
    with Cons.prems(1) have "createTx_loop t a amount time rest spent ins keys = Inr (spent', ins', keys')"
      by (cases "AssetID utxo = a") simp_all
    from Cons.IH[OF this Cons.prems(2,3)] show ?thesis .
  next
    case False
    then obtain inputIntf signers where
      a: "AssetID utxo = a" and sp: "Spend (keychain t) (Out utxo) time = Some (inputIntf, signers)"
      by auto
    show ?thesis
    proof (cases "TransferableIn inputIntf")
      case None
      with Cons.prems a sp have
        "createTx_loop t a amount time rest spent ins keys = Inr (spent', ins', keys')" by simp
      from Cons.IH[OF this Cons.prems(2,3)] show ?thesis .
    next
      case (Some inAmt)
      then obtain sigs where ii: "inputIntf = TransferInput inAmt sigs"
        by (cases inputIntf) (auto simp: TransferableIn_def)
      let ?inp = "\<lparr>TxID = TxID utxo, OutputIndex = OutputIndex utxo, iAsset = a, In = inputIntf\<rparr>"
      have ia: "input_amount ?inp = unat inAmt" by (simp add: input_amount_def ii)
      show ?thesis
      proof (cases "Add64 spent inAmt")
        case (Inl e)
        with Cons.prems a sp Some show ?thesis by simp
      next
        case (Inr s2)
        from Add64_Inr[OF Inr] have s2: "unat s2 = unat spent + unat inAmt" .
        have sum2: "inputs_sum (ins @ [?inp]) = unat s2"
          by (simp add: inputs_sum_append ia s2 Cons.prems(2))
        have len2: "length (ins @ [?inp]) = length (keys @ [signers])"
          using Cons.prems(3) by simp
        show ?thesis
        proof (cases "s2 \<ge> amount + TxFee t")
          case True
          with Cons.prems(1) a sp Some Inr have "spent' = s2" "ins' = ins @ [?inp]" "keys' = keys @ [signers]"
            by (simp_all add: Let_def)
          with sum2 len2 show ?thesis by simp
        next
          case False
          with Cons.prems(1) a sp Some Inr have
            "createTx_loop t a amount time rest s2 (ins @ [?inp]) (keys @ [signers]) = Inr (spent', ins', keys')"
            by (simp add: Let_def)
          from Cons.IH[OF this sum2 len2] show ?thesis .
        qed
      qed
    qed
  qed
qed

lemma sum_list_insort_key:
  "sum_list (map g (insort_key f x xs)) = (g x :: nat) + sum_list (map g xs)"
  by (induction xs) auto

lemma sum_list_sort_key: "sum_list (map g (sort_key f xs)) = (sum_list (map g xs) :: nat)"
  by (induction xs) (auto simp: sum_list_insort_key)

lemma sorted_inputs_sum:
  assumes "length ins = length keys"
  shows "inputs_sum (fst (SortTransferableInputsWithSigners ins keys)) = inputs_sum ins"
proof -
  have "map fst (zip ins keys) = ins" using assms by simp
  then have "sum_list (map (input_amount \<circ> fst) (zip ins keys)) = sum_list (map input_amount ins)"
    by (metis map_map)
  then show ?thesis
    by (simp add: SortTransferableInputsWithSigners_def Let_def inputs_sum_def sum_list_sort_key)
qed

text \<open>
  Where \<open>amount + TxFee\<close> does not overflow, a successful build consumes at least that much.
\<close>

lemma createTx_covers_amount_and_fee:
  assumes "unat amount + unat (TxFee t) < 2 ^ 64"
    and "fst (createTx t a amount destAddr changeAddr time) = Inr tx"
  shows "unat amount + unat (TxFee t) \<le> inputs_sum (Ins tx)"
proof -
  from assms(1) have u: "unat (amount + TxFee t) = unat amount + unat (TxFee t)"
    by (simp add: unat_word_ariths)
  from assms(2) obtain spent ins keys where
    l: "createTx_loop t a amount time (UTXOs (utxoSet t)) 0 [] [] = Inr (spent, ins, keys)"
    and ge: "\<not> spent < amount + TxFee t"
    and tx: "Ins tx = fst (SortTransferableInputsWithSigners ins keys)"
    by (auto simp: createTx_def Let_def split: if_splits sum.splits prod.splits)
  from createTx_loop_sum[OF l] have s: "inputs_sum ins = unat spent" and len: "length ins = length keys"
    by (simp_all add: inputs_sum_def)
  from ge have "unat (amount + TxFee t) \<le> unat spent" by (simp add: word_le_nat_alt not_less)
  then show ?thesis by (simp add: tx sorted_inputs_sum[OF len] s u)
qed

text \<open>
  Claim C4 asks every successful build to consume at least amount plus fee, in exact
  arithmetic. With the fee \<open>MaxUint64\<close> the sum \<open>amount + TxFee\<close> of \<open>createTx\<close> wraps
  around to zero for the amount 1: on a wallet that holds 5 units the build succeeds,
  consuming that one input of 5 units and creating outputs of 1 and 5 units, while
  amount plus fee is \<open>2 ^ 64\<close>. (Where the sum does not overflow,
  \<open>createTx_covers_amount_and_fee\<close> above gives what the claim asks.)
\<close>

theorem createTx_fee_overflow_underfunded:
  "fst (createTx (addUTXO (test_wallet MaxUint64 50) (example_utxo 1 5)) [0] 1 1 1 0)
     = Inr \<lparr>txNetworkID = 12345, BlockchainID = [1, 2, 3, 4, 5, 6, 7, 8, 9, 10],
            Outs = [transferOutput [0] 1 1, transferOutput [0] 5 1],
            Ins = [\<lparr>TxID = [1], OutputIndex = 0, iAsset = [0], In = TransferInput 5 [0]\<rparr>],
            Creds = [[1]]\<rparr>
   \<and> inputs_sum [\<lparr>TxID = [1], OutputIndex = 0, iAsset = [0], In = TransferInput 5 [0]\<rparr>] = 5
   \<and> unat (1 :: uint64) + unat (TxFee (addUTXO (test_wallet MaxUint64 50) (example_utxo 1 5))) = 2 ^ 64"
  apply (simp add: createTx_def addUTXO_def Put_def Add64_def inputs_sum_def input_amount_def balance_of_def spend_defs wallet_defs id_defs
    SortTransferableInputsWithSigners_def SortTransferableOutputs_def transferOutput_def out_bytes_def owners_bytes_def)
  done

section \<open>The sequence of transactions\<close>

text \<open>
  Claim C3 asks \<open>nextTxs\<close> to remove what it returns. Asked for two transactions of a
  sequence holding one, \<open>nextTxs\<close> returns that transaction and leaves the sequence as
  it was, so the next call returns the same transaction again.
\<close>

theorem nextTxs_short_sequence_not_consumed:
  "nextTxs ((test_tester 0 50)\<lparr>txs := [Some (example_tx 1)]\<rparr>) 2
     = (Inr [Some (example_tx 1)], (test_tester 0 50)\<lparr>txs := [Some (example_tx 1)]\<rparr>)
   \<and> txs (snd (nextTxs ((test_tester 0 50)\<lparr>txs := [Some (example_tx 1)]\<rparr>) 2)) = [Some (example_tx 1)]
   \<and> fst (nextTxs (snd (nextTxs ((test_tester 0 50)\<lparr>txs := [Some (example_tx 1)]\<rparr>) 2)) 2)
       = Inr [Some (example_tx 1)]"
  by (simp add: nextTxs_def)

section \<open>Generating the sequence\<close>

lemma Spend_own_output:
  "Spend [k] (TransferOutput amt \<lparr>Locktime = 0, Threshold = 1, Addrs = [k]\<rparr>) time
     = Some (TransferInput amt [0], [k])"
  by (simp add: Spend_def Match_def)


lemma addUTXO_fresh:
  assumes s: "in_sync (utxoSet t)" and kc: "keychain t = [addr]"
    and fresh: "InputID u \<notin> InputID ` set (UTXOs (utxoSet t))"
    and out: "Out u = TransferOutput amt \<lparr>Locktime = 0, Threshold = 1, Addrs = [addr]\<rparr>"
  shows "\<exists>us. addUTXO t u = t\<lparr>utxoSet := us,
            balance := (balance t)(AssetID u \<mapsto> balance_of t (AssetID u) + amt)\<rparr>
          \<and> in_sync us \<and> UTXOs us = UTXOs (utxoSet t) @ [u]"
proof -
  have n: "utxoMap (utxoSet t) (InputID u) = None" by (rule in_sync_absent[OF s fresh])
  have "addUTXO t u = t\<lparr>utxoSet := Put (utxoSet t) u,
            balance := (balance t)(AssetID u \<mapsto> balance_of t (AssetID u) + amt)\<rparr>"
    by (simp add: addUTXO_def out kc Spend_own_output TransferableOut_def)
  moreover have "in_sync (Put (utxoSet t) u)" by (rule in_sync_Put[OF s])
  moreover have "UTXOs (Put (utxoSet t) u) = UTXOs (utxoSet t) @ [u]"
    by (simp add: Put_absent[OF n])
  ultimately show ?thesis by blast
qed

lemma removeUTXO_head:
  assumes s: "in_sync (utxoSet t)" and l: "UTXOs (utxoSet t) = u # rest"
    and out: "Out u = TransferOutput amt ow"
  shows "\<exists>us. removeUTXO t (InputID u) = Inr (t\<lparr>utxoSet := us,
            balance := (if balance_of t (AssetID u) - amt = 0 then (balance t)(AssetID u := None)
                        else (balance t)(AssetID u \<mapsto> balance_of t (AssetID u) - amt))\<rparr>)
          \<and> in_sync us \<and> UTXOs us = (if rest = [] then [] else last rest # butlast rest)"
proof -
  have k: "utxoMap (utxoSet t) (InputID u) = Some 0"
    using in_sync_index[OF s, of 0] l by simp
  from in_sync_Remove[OF s k] obtain us where
    R: "Remove (utxoSet t) (InputID u) = Inr (Some (UTXOs (utxoSet t) ! 0), us)"
    and l': "UTXOs us = butlast ((UTXOs (utxoSet t))[0 := last (UTXOs (utxoSet t))])"
    and s': "in_sync us" by blast
  have G: "Get (utxoSet t) (InputID u) = Inr (Some u)"
    using k l by (simp add: Get_def)
  have "removeUTXO t (InputID u) = Inr (t\<lparr>utxoSet := us,
            balance := (if balance_of t (AssetID u) - amt = 0 then (balance t)(AssetID u := None)
                        else (balance t)(AssetID u \<mapsto> balance_of t (AssetID u) - amt))\<rparr>)"
    by (simp add: removeUTXO_def G R out TransferableOut_def Let_def)
  moreover have "UTXOs us = (if rest = [] then [] else last rest # butlast rest)"
    by (simp add: l' l)
  ultimately show ?thesis using s' by blast
qed

lemma sort_two_outputs:
  assumes "amt \<noteq> 0" "amt \<noteq> (1 :: uint64)"
  shows "SortTransferableOutputs [transferOutput a 1 d, transferOutput a (amt - 1) d]
     = [transferOutput a 1 d, transferOutput a (amt - 1) d]"
proof -
  have "amt - 1 \<noteq> 0" using assms by simp
  then have "1 \<le> unat (amt - 1)" by (simp add: unat_gt_0 Suc_le_eq)
  then have "Suc 0 < unat (amt - 1) \<or> Suc 0 = unat (amt - 1)" by auto
  then show ?thesis
    by (auto simp add: SortTransferableOutputs_def transferOutput_def out_bytes_def owners_bytes_def)
qed

lemma createTx_head:
  assumes kc: "keychain t = [addr]" and fee: "TxFee t = 0"
    and l: "UTXOs (utxoSet t) = u # rest"
    and a: "AssetID u = a"
    and out: "Out u = TransferOutput amt \<lparr>Locktime = 0, Threshold = 1, Addrs = [addr]\<rparr>"
    and amt: "amt \<noteq> 0"
  shows "createTx t a 1 addr addr now =
     (Inr \<lparr>txNetworkID = NetworkID t, BlockchainID = ChainID t,
           Outs = (if amt = 1 then [transferOutput a 1 addr]
                   else [transferOutput a 1 addr, transferOutput a (amt - 1) addr]),
           Ins = [\<lparr>TxID = TxID u, OutputIndex = OutputIndex u, iAsset = a, In = TransferInput amt [0]\<rparr>],
           Creds = [[addr]]\<rparr>, t)"
proof -
  have ge: "1 \<le> amt" using amt by (simp add: word_le_nat_alt unat_gt_0 Suc_le_eq)
  have loop: "createTx_loop t a 1 now (u # rest) 0 [] [] =
    Inr (amt, [\<lparr>TxID = TxID u, OutputIndex = OutputIndex u, iAsset = a, In = TransferInput amt [0]\<rparr>], [[addr]])"
    using ge amt unsigned_less[of amt, where ?'a = nat]
    by (simp add: a out kc fee Spend_own_output TransferableIn_def Add64_def)
  have nlt: "\<not> amt < 1" using amt by simp
  have gt: "1 < amt \<longleftrightarrow> amt \<noteq> 1" using ge by auto
  show ?thesis
  proof (cases "amt = 1")
    case True
    then show ?thesis
      by (simp add: createTx_def loop l fee SortTransferableInputsWithSigners_def
          SortTransferableOutputs_def del: createTx_loop.simps)
  next
    case False
    then show ?thesis
      using nlt gt sort_two_outputs[OF amt False, of a addr]
      by (simp add: createTx_def loop l fee SortTransferableInputsWithSigners_def
          del: createTx_loop.simps)
  qed
qed


lemma tx_UTXOs_one:
  "tx_UTXOs \<lparr>txNetworkID = n, BlockchainID = c, Outs = [\<lparr>oAsset = a, oOut = x\<rparr>], Ins = ins, Creds = cr\<rparr>
    = [\<lparr>TxID = tx_ID \<lparr>txNetworkID = n, BlockchainID = c, Outs = [\<lparr>oAsset = a, oOut = x\<rparr>], Ins = ins, Creds = cr\<rparr>,
        OutputIndex = 0, Asset = a, Out = x\<rparr>]"
  by (simp add: tx_UTXOs_def)

lemma tx_UTXOs_two:
  "tx_UTXOs \<lparr>txNetworkID = n, BlockchainID = c,
       Outs = [\<lparr>oAsset = a, oOut = x\<rparr>, \<lparr>oAsset = b, oOut = y\<rparr>], Ins = ins, Creds = cr\<rparr>
    = [\<lparr>TxID = tx_ID \<lparr>txNetworkID = n, BlockchainID = c,
              Outs = [\<lparr>oAsset = a, oOut = x\<rparr>, \<lparr>oAsset = b, oOut = y\<rparr>], Ins = ins, Creds = cr\<rparr>,
        OutputIndex = 0, Asset = a, Out = x\<rparr>,
       \<lparr>TxID = tx_ID \<lparr>txNetworkID = n, BlockchainID = c,
              Outs = [\<lparr>oAsset = a, oOut = x\<rparr>, \<lparr>oAsset = b, oOut = y\<rparr>], Ins = ins, Creds = cr\<rparr>,
        OutputIndex = 1, Asset = b, Out = y\<rparr>]"
  by (simp add: tx_UTXOs_def)

text \<open>
  One iteration of \<open>generateTxs\<close> on a wallet with one key and no fee whose first UTXO
  it can spend: the transaction consumes that UTXO alone, the UTXO is removed by swapping
  the last one into its place, and the outputs, whose identifiers are new to the set, are
  appended. The balance of the asset is what it was.
\<close>

lemma generate_step:
  assumes kc: "keychain t = [addr]" and fee: "TxFee t = 0"
    and s: "in_sync (utxoSet t)" and l: "UTXOs (utxoSet t) = u # rest"
    and a: "Asset u = a"
    and out: "Out u = TransferOutput amt \<lparr>Locktime = 0, Threshold = 1, Addrs = [addr]\<rparr>"
    and amt: "amt \<noteq> 0"
    and tx: "tx = \<lparr>txNetworkID = NetworkID t, BlockchainID = ChainID t,
           Outs = (if amt = 1 then [transferOutput a 1 addr]
                   else [transferOutput a 1 addr, transferOutput a (amt - 1) addr]),
           Ins = [\<lparr>TxID = TxID u, OutputIndex = OutputIndex u, iAsset = a, In = TransferInput amt [0]\<rparr>],
           Creds = [[addr]]\<rparr>"
    and fresh: "tx_ID tx \<notin> TxID ` set rest"
  shows "\<exists>t'. generateTxs_loop (Suc n) i a addr now t = generateTxs_loop n (Suc i) a addr now t'
      \<and> keychain t' = [addr] \<and> TxFee t' = 0 \<and> NetworkID t' = NetworkID t \<and> ChainID t' = ChainID t
      \<and> in_sync (utxoSet t')
      \<and> UTXOs (utxoSet t') = (if rest = [] then [] else last rest # butlast rest)
           @ [\<lparr>TxID = tx_ID tx, OutputIndex = 0, Asset = a,
                Out = TransferOutput 1 \<lparr>Locktime = 0, Threshold = 1, Addrs = [addr]\<rparr>\<rparr>]
           @ (if amt = 1 then []
              else [\<lparr>TxID = tx_ID tx, OutputIndex = 1, Asset = a,
                     Out = TransferOutput (amt - 1) \<lparr>Locktime = 0, Threshold = 1, Addrs = [addr]\<rparr>\<rparr>])
      \<and> balance_of t' a = balance_of t a
      \<and> txs t' = (txs t)[i := Some tx]"
proof -
  let ?own = "\<lparr>Locktime = 0, Threshold = 1, Addrs = [addr]\<rparr>"
  let ?rest' = "if rest = [] then [] else last rest # butlast rest"
  let ?u0 = "\<lparr>TxID = tx_ID tx, OutputIndex = 0, Asset = a, Out = TransferOutput 1 ?own\<rparr>"
  let ?u1 = "\<lparr>TxID = tx_ID tx, OutputIndex = 1, Asset = a, Out = TransferOutput (amt - 1) ?own\<rparr>"
  have au: "AssetID u = a" using a by (simp add: AssetID_def)
  have c: "createTx t a 1 addr addr now = (Inr tx, t)"
    unfolding tx by (rule createTx_head[OF kc fee l au out amt])
  have iu: "InputUTXOs tx = [\<lparr>TxID = TxID u, OutputIndex = OutputIndex u\<rparr>]"
    by (simp add: tx InputUTXOs_def)
  have iid: "InputID \<lparr>TxID = TxID u, OutputIndex = OutputIndex u\<rparr> = InputID u"
    by (simp add: InputID_def)
  from removeUTXO_head[OF s l out] obtain us2 where
    r: "removeUTXO t (InputID u) = Inr (t\<lparr>utxoSet := us2,
            balance := (if balance_of t (AssetID u) - amt = 0 then (balance t)(AssetID u := None)
                        else (balance t)(AssetID u \<mapsto> balance_of t (AssetID u) - amt))\<rparr>)"
    and s2: "in_sync us2" and l2: "UTXOs us2 = ?rest'" by blast
  define t2 where "t2 = t\<lparr>utxoSet := us2,
            balance := (if balance_of t (AssetID u) - amt = 0 then (balance t)(AssetID u := None)
                        else (balance t)(AssetID u \<mapsto> balance_of t (AssetID u) - amt))\<rparr>"
  have rs: "removeUTXOs t (InputUTXOs tx) = Inr t2"
    by (simp add: iu iid r t2_def)
  have t2f: "keychain t2 = [addr]" "TxFee t2 = 0" "NetworkID t2 = NetworkID t" "ChainID t2 = ChainID t"
    "utxoSet t2 = us2" "txs t2 = txs t"
    by (simp_all add: t2_def kc fee)
  have b2: "balance_of t2 a = balance_of t a - amt"
    by (simp add: t2_def balance_of_def au)
  have set2: "set (UTXOs us2) \<subseteq> set rest"
    by (auto simp: l2 dest: in_set_butlastD)
  have f0: "InputID ?u0 \<notin> InputID ` set (UTXOs (utxoSet t2))"
    using fresh set2 by (auto simp: t2f InputID_def Prefix_def)
  from addUTXO_fresh[OF _ t2f(1) f0, of 1] s2 obtain us3 where
    a3: "addUTXO t2 ?u0 = t2\<lparr>utxoSet := us3,
            balance := (balance t2)(AssetID ?u0 \<mapsto> balance_of t2 (AssetID ?u0) + 1)\<rparr>"
    and s3: "in_sync us3" and l3: "UTXOs us3 = UTXOs (utxoSet t2) @ [?u0]"
    by (auto simp: t2f)
  define t3 where "t3 = t2\<lparr>utxoSet := us3,
            balance := (balance t2)(AssetID ?u0 \<mapsto> balance_of t2 (AssetID ?u0) + 1)\<rparr>"
  have t3f: "keychain t3 = [addr]" "TxFee t3 = 0" "NetworkID t3 = NetworkID t" "ChainID t3 = ChainID t"
    "utxoSet t3 = us3" "txs t3 = txs t"
    by (simp_all add: t3_def t2f)
  have b3: "balance_of t3 a = balance_of t a - amt + 1"
    by (simp add: t3_def balance_of_def AssetID_def b2[unfolded balance_of_def])
  show ?thesis
  proof (cases "amt = 1")
    case True
    have o: "tx_UTXOs tx = [?u0]"
      unfolding tx using True by (simp add: transferOutput_def tx_UTXOs_one)
    have g: "generateTxs_loop (Suc n) i a addr now t =
        generateTxs_loop n (Suc i) a addr now (t3\<lparr>txs := (txs t3)[i := Some tx]\<rparr>)"
      by (simp add: c rs o a3 t3_def Let_def)
    have "balance_of (t3\<lparr>txs := (txs t3)[i := Some tx]\<rparr>) a = balance_of t a"
      using b3 True by (simp add: balance_of_def)
    then show ?thesis
      using g s3 l3 l2 True by (intro exI[of _ "t3\<lparr>txs := (txs t3)[i := Some tx]\<rparr>"]) (simp add: t3f t2f)
  next
    case False
    have o: "tx_UTXOs tx = [?u0, ?u1]"
      unfolding tx using False by (simp add: transferOutput_def tx_UTXOs_two)
    have f1: "InputID ?u1 \<notin> InputID ` set (UTXOs (utxoSet t3))"
      using fresh set2 by (auto simp: t3f t2f l3 InputID_def Prefix_def)
    from addUTXO_fresh[OF _ t3f(1) f1, of "amt - 1"] s3 obtain us4 where
      a4: "addUTXO t3 ?u1 = t3\<lparr>utxoSet := us4,
            balance := (balance t3)(AssetID ?u1 \<mapsto> balance_of t3 (AssetID ?u1) + (amt - 1))\<rparr>"
      and s4: "in_sync us4" and l4: "UTXOs us4 = UTXOs (utxoSet t3) @ [?u1]"
      by (auto simp: t3f)
    define t4 where "t4 = t3\<lparr>utxoSet := us4,
            balance := (balance t3)(AssetID ?u1 \<mapsto> balance_of t3 (AssetID ?u1) + (amt - 1))\<rparr>"
    have t4f: "keychain t4 = [addr]" "TxFee t4 = 0" "NetworkID t4 = NetworkID t" "ChainID t4 = ChainID t"
      "utxoSet t4 = us4" "txs t4 = txs t"
      by (simp_all add: t4_def t3f)
    have b4: "balance_of t4 a = balance_of t a"
      by (simp add: t4_def balance_of_def AssetID_def b3[unfolded balance_of_def])
    have g: "generateTxs_loop (Suc n) i a addr now t =
        generateTxs_loop n (Suc i) a addr now (t4\<lparr>txs := (txs t4)[i := Some tx]\<rparr>)"
      by (simp add: c rs o a3 t3_def[symmetric] a4 t4_def Let_def)
    have "balance_of (t4\<lparr>txs := (txs t4)[i := Some tx]\<rparr>) a = balance_of t a"
      using b4 by (simp add: balance_of_def)
    then show ?thesis
      using g s4 l4 l3 l2 False
      by (intro exI[of _ "t4\<lparr>txs := (txs t4)[i := Some tx]\<rparr>"]) (simp add: t4f t3f t2f)
  qed
qed

lemmas scenario_defs = scenario_tx1_def scenario_tx2_def scenario_tx3_def scenario_tx4_def
  scenario_tx5_def self_payment_def

lemma scenario_tx_fresh:
  "tx_ID scenario_tx2 \<noteq> tx_ID scenario_tx1"
  "tx_ID scenario_tx3 \<noteq> tx_ID scenario_tx2"
  "tx_ID scenario_tx4 \<noteq> tx_ID scenario_tx3"
  "tx_ID scenario_tx5 \<noteq> tx_ID scenario_tx3"
  "tx_ID scenario_tx5 \<noteq> tx_ID scenario_tx4"
  by (simp_all add: scenario_defs tx_ID_def Bytes_def id_bytes_def toutput_bytes_def
      transferOutput_def out_bytes_def owners_bytes_def)


lemma scenario_start:
  "keychain (addUTXO (test_wallet 0 50) (example_utxo 1 1000)) = [1]"
  "TxFee (addUTXO (test_wallet 0 50) (example_utxo 1 1000)) = 0"
  "NetworkID (addUTXO (test_wallet 0 50) (example_utxo 1 1000)) = 12345"
  "ChainID (addUTXO (test_wallet 0 50) (example_utxo 1 1000)) = [1, 2, 3, 4, 5, 6, 7, 8, 9, 10]"
  "utxoSet (addUTXO (test_wallet 0 50) (example_utxo 1 1000)) = Put emptyUTXOSet (example_utxo 1 1000)"
  "UTXOs (utxoSet (addUTXO (test_wallet 0 50) (example_utxo 1 1000))) = [example_utxo 1 1000]"
  "balance_of (addUTXO (test_wallet 0 50) (example_utxo 1 1000)) [0] = 1000"
  by (simp_all add: addUTXO_def Put_def balance_of_def wallet_defs spend_defs id_defs)

lemma generateTxs_scenario:
  "\<exists>t. generateTxs (addUTXO (test_wallet 0 50) (example_utxo 1 1000)) 5 [0] now = (None, t)
     \<and> in_sync (utxoSet t)
     \<and> UTXOs (utxoSet t) = [own_utxo scenario_tx4 0 1, own_utxo scenario_tx3 0 1,
           own_utxo scenario_tx5 0 1, own_utxo scenario_tx5 1 997]
     \<and> balance_of t [0] = 1000
     \<and> txs t = [Some scenario_tx1, Some scenario_tx2, Some scenario_tx3, Some scenario_tx4,
           Some scenario_tx5]"
proof -
  let ?own = "\<lparr>Locktime = 0, Threshold = 1, Addrs = [1::nat]\<rparr>"
  define t0 where "t0 = (addUTXO (test_wallet 0 50) (example_utxo 1 1000))\<lparr>txs := replicate 5 None\<rparr>"
  have g: "generateTxs (addUTXO (test_wallet 0 50) (example_utxo 1 1000)) 5 [0] now
      = generateTxs_loop (Suc (Suc (Suc (Suc (Suc 0))))) 0 [0] 1 now t0"
    unfolding generateTxs_def scenario_start(1) t0_def
    by (simp add: eval_nat_numeral del: generateTxs_loop.simps)
  have k0: "keychain t0 = [1]" and f0: "TxFee t0 = 0" and n0: "NetworkID t0 = 12345"
    and c0: "ChainID t0 = [1, 2, 3, 4, 5, 6, 7, 8, 9, 10]"
    and l0: "UTXOs (utxoSet t0) = example_utxo 1 1000 # []" and b0: "balance_of t0 [0] = 1000"
    and x0: "txs t0 = [None, None, None, None, None]"
    using scenario_start by (simp_all add: t0_def balance_of_def eval_nat_numeral)
  have s0: "in_sync (utxoSet t0)"
    using in_sync_Put[OF in_sync_empty, of "example_utxo 1 1000"] scenario_start(5)
    by (simp add: t0_def)
  from generate_step[OF k0 f0 s0 l0, of "[0]" 1000 scenario_tx1 4 0 now]
  obtain t1 where g1: "generateTxs_loop (Suc 4) 0 [0] 1 now t0 = generateTxs_loop 4 (Suc 0) [0] 1 now t1"
    and k1: "keychain t1 = [1]" and f1: "TxFee t1 = 0" and n1: "NetworkID t1 = 12345"
    and c1: "ChainID t1 = [1, 2, 3, 4, 5, 6, 7, 8, 9, 10]" and s1: "in_sync (utxoSet t1)"
    and l1: "UTXOs (utxoSet t1) = own_utxo scenario_tx1 0 1 # [own_utxo scenario_tx1 1 999]"
    and b1: "balance_of t1 [0] = 1000"
    and x1: "txs t1 = [Some scenario_tx1, None, None, None, None]"
    by (auto simp: example_utxo_def scenario_defs own_utxo_def n0 c0 b0 x0)
  from generate_step[OF k1 f1 s1 l1, of "[0]" 1 scenario_tx2 3 1 now]
  obtain t2 where g2: "generateTxs_loop (Suc 3) 1 [0] 1 now t1 = generateTxs_loop 3 (Suc 1) [0] 1 now t2"
    and k2: "keychain t2 = [1]" and f2: "TxFee t2 = 0" and n2: "NetworkID t2 = 12345"
    and c2: "ChainID t2 = [1, 2, 3, 4, 5, 6, 7, 8, 9, 10]" and s2: "in_sync (utxoSet t2)"
    and l2: "UTXOs (utxoSet t2) = own_utxo scenario_tx1 1 999 # [own_utxo scenario_tx2 0 1]"
    and b2: "balance_of t2 [0] = 1000"
    and x2: "txs t2 = [Some scenario_tx1, Some scenario_tx2, None, None, None]"
    using scenario_tx_fresh
    by (auto simp: scenario_tx2_def self_payment_def own_utxo_def n1 c1 b1 x1)
  from generate_step[OF k2 f2 s2 l2, of "[0]" 999 scenario_tx3 2 2 now]
  obtain t3 where g3: "generateTxs_loop (Suc 2) 2 [0] 1 now t2 = generateTxs_loop 2 (Suc 2) [0] 1 now t3"
    and k3: "keychain t3 = [1]" and f3: "TxFee t3 = 0" and n3: "NetworkID t3 = 12345"
    and c3: "ChainID t3 = [1, 2, 3, 4, 5, 6, 7, 8, 9, 10]" and s3: "in_sync (utxoSet t3)"
    and l3: "UTXOs (utxoSet t3) = own_utxo scenario_tx2 0 1 # [own_utxo scenario_tx3 0 1, own_utxo scenario_tx3 1 998]"
    and b3: "balance_of t3 [0] = 1000"
    and x3: "txs t3 = [Some scenario_tx1, Some scenario_tx2, Some scenario_tx3, None, None]"
    using scenario_tx_fresh
    by (auto simp: scenario_tx3_def self_payment_def own_utxo_def n2 c2 b2 x2)
  from generate_step[OF k3 f3 s3 l3, of "[0]" 1 scenario_tx4 1 3 now]
  obtain t4 where g4: "generateTxs_loop (Suc 1) 3 [0] 1 now t3 = generateTxs_loop 1 (Suc 3) [0] 1 now t4"
    and k4: "keychain t4 = [1]" and f4: "TxFee t4 = 0" and n4: "NetworkID t4 = 12345"
    and c4: "ChainID t4 = [1, 2, 3, 4, 5, 6, 7, 8, 9, 10]" and s4: "in_sync (utxoSet t4)"
    and l4: "UTXOs (utxoSet t4) = own_utxo scenario_tx3 1 998 # [own_utxo scenario_tx3 0 1, own_utxo scenario_tx4 0 1]"
    and b4: "balance_of t4 [0] = 1000"
    and x4: "txs t4 = [Some scenario_tx1, Some scenario_tx2, Some scenario_tx3, Some scenario_tx4, None]"
    using scenario_tx_fresh
    by (auto simp: scenario_tx4_def self_payment_def own_utxo_def n3 c3 b3 x3)
  from generate_step[OF k4 f4 s4 l4, of "[0]" 998 scenario_tx5 0 4 now]
  obtain t5 where g5: "generateTxs_loop (Suc 0) 4 [0] 1 now t4 = generateTxs_loop 0 (Suc 4) [0] 1 now t5"
    and s5: "in_sync (utxoSet t5)"
    and l5: "UTXOs (utxoSet t5) = [own_utxo scenario_tx4 0 1, own_utxo scenario_tx3 0 1,
           own_utxo scenario_tx5 0 1, own_utxo scenario_tx5 1 997]"
    and b5: "balance_of t5 [0] = 1000"
    and x5: "txs t5 = [Some scenario_tx1, Some scenario_tx2, Some scenario_tx3, Some scenario_tx4,
           Some scenario_tx5]"
    using scenario_tx_fresh
    by (auto simp: scenario_tx5_def self_payment_def own_utxo_def n4 c4 b4 x4)
  have "generateTxs (addUTXO (test_wallet 0 50) (example_utxo 1 1000)) 5 [0] now = (None, t5)"
    using g g1 g2 g3 g4 g5 by (simp add: eval_nat_numeral)
  then show ?thesis using s5 l5 b5 x5 by blast
qed

text \<open>
  Claim C8, amended. With the funding UTXO of 1000 units in the wallet and no fee,
  generating 5 single-unit self-payments succeeds and leaves the wallet holding exactly
  1000 units: each payment goes to the wallet's own address and comes back as a UTXO.
  The set then holds four UTXOs of 1, 1, 1 and 997 units, the last one being the change
  output of the last transaction, and the balance table agrees with their sum.
\<close>

theorem generateTxs_five_self_payments:
  "\<exists>t. generateTxs (addUTXO (test_wallet 0 50) (example_utxo 1 1000)) 5 [0] now = (None, t)
     \<and> txs t = [Some scenario_tx1, Some scenario_tx2, Some scenario_tx3, Some scenario_tx4,
           Some scenario_tx5]
     \<and> map utxo_amount (UTXOs (utxoSet t)) = [1, 1, 1, 997]
     \<and> last (UTXOs (utxoSet t)) = own_utxo scenario_tx5 1 997
     \<and> asset_sum t [0] = 1000
     \<and> balance_of t [0] = 1000"
proof -
  from generateTxs_scenario[of now] obtain t where
    g: "generateTxs (addUTXO (test_wallet 0 50) (example_utxo 1 1000)) 5 [0] now = (None, t)"
    and l: "UTXOs (utxoSet t) = [own_utxo scenario_tx4 0 1, own_utxo scenario_tx3 0 1,
           own_utxo scenario_tx5 0 1, own_utxo scenario_tx5 1 997]"
    and b: "balance_of t [0] = 1000"
    and x: "txs t = [Some scenario_tx1, Some scenario_tx2, Some scenario_tx3, Some scenario_tx4,
           Some scenario_tx5]"
    by blast
  have "map utxo_amount (UTXOs (utxoSet t)) = [1, 1, 1, 997]"
    by (simp add: l own_utxo_def utxo_amount_def TransferableOut_def)
  moreover have "asset_sum t [0] = 1000"
    by (simp add: asset_sum_def l own_utxo_def utxo_amount_def TransferableOut_def AssetID_def)
  moreover have "last (UTXOs (utxoSet t)) = own_utxo scenario_tx5 1 997"
    by (simp add: l)
  ultimately show ?thesis using g b x by (intro exI[of _ t]) simp
qed

text \<open>
  The claim as stated fails in that scenario: the balance is 1000, not 995, and the set
  holds four UTXOs, not one.
\<close>

theorem generateTxs_five_not_995_in_one_utxo:
  "fst (generateTxs (addUTXO (test_wallet 0 50) (example_utxo 1 1000)) 5 [0] 0) = None
   \<and> balance_of (snd (generateTxs (addUTXO (test_wallet 0 50) (example_utxo 1 1000)) 5 [0] 0)) [0] = 1000
   \<and> balance_of (snd (generateTxs (addUTXO (test_wallet 0 50) (example_utxo 1 1000)) 5 [0] 0)) [0] \<noteq> 995
   \<and> length (UTXOs (utxoSet (snd (generateTxs (addUTXO (test_wallet 0 50) (example_utxo 1 1000)) 5 [0] 0)))) = 4"
proof -
  from generateTxs_scenario[of 0] obtain t where
    g: "generateTxs (addUTXO (test_wallet 0 50) (example_utxo 1 1000)) 5 [0] 0 = (None, t)"
    and l: "UTXOs (utxoSet t) = [own_utxo scenario_tx4 0 1, own_utxo scenario_tx3 0 1,
           own_utxo scenario_tx5 0 1, own_utxo scenario_tx5 1 997]"
    and b: "balance_of t [0] = 1000"
    by blast
  show ?thesis using g l b by simp
qed

section \<open>The issuance loop\<close>

lemma nextTxs_Inr:
  assumes "nextTxs t n = (Inr batch, t')"
  shows "int (length batch) \<le> n \<and> (n = 1 \<longrightarrow> length batch = 1)
     \<and> processingVtxs t' = processingVtxs t \<and> MaxProcessingVtxs t' = MaxProcessingVtxs t"
proof -
  from assms have ne: "length (txs t) \<noteq> 0" by (auto simp: nextTxs_def split: if_splits)
  show ?thesis
  proof (cases "int (length (txs t)) < n")
    case True
    with assms ne have "batch = txs t" "t' = t" by (auto simp: nextTxs_def)
    with True ne show ?thesis by auto
  next
    case False
    with assms ne have n: "0 \<le> n" and b: "batch = take (nat n) (txs t)"
      and t': "t' = t\<lparr>txs := drop (nat n) (txs t)\<rparr>"
      by (auto simp: nextTxs_def split: if_splits)
    from False n have "length batch = nat n" by (simp add: b)
    with n show ?thesis by (simp add: t')
  qed
qed

lemma nextTxs_Inl:
  assumes "nextTxs t n = (Inl e, t')"
  shows "t' = t \<and> (e = errNoRemainingTxs \<longrightarrow> txs t = [])"
  using assms by (auto simp: nextTxs_def split: if_splits)

lemma parse_txs_length: "parse_txs ok b = Inr l \<Longrightarrow> length l = length b"
proof (induction b arbitrary: l)
  case Nil
  then show ?case by simp
next
  case (Cons x xs)
  then show ?case
    by (cases x) (auto split: if_splits sum.splits)
qed

lemma Run_body_Inr:
  assumes "Run_body cfg e i (t, h, sent) = Inr (t', h', sent')"
  shows "\<exists>b. sent' = sent @ [b] \<and> int (length b) \<le> BatchSize cfg
     \<and> (BatchSize cfg = 1 \<longrightarrow> length b = 1)"
  using assms
  by (auto simp: Run_body_def split: prod.splits bool.splits sum.splits option.splits if_splits
      dest!: nextTxs_Inr parse_txs_length)

lemma Run_body_Inl:
  assumes "Run_body cfg e i (t, h, sent) = Inl (r, t', h', sent')"
  shows "r \<noteq> Done \<and> (\<forall>j. r = RanOut j \<longrightarrow> j = i \<and> txs t' = [] \<and> sent' = sent)
     \<and> (sent' = sent \<or> (\<exists>b. sent' = sent @ [b] \<and> int (length b) \<le> BatchSize cfg
           \<and> (BatchSize cfg = 1 \<longrightarrow> length b = 1)))"
  using assms
  by (auto simp: Run_body_def split: prod.splits bool.splits sum.splits option.splits if_splits
      dest!: nextTxs_Inr nextTxs_Inl parse_txs_length)

lemma Run_loop_batches:
  assumes "Run_loop cfg env i (t, h, sent) = (r, t', h', sent')"
  shows "\<exists>extra. sent' = sent @ extra
     \<and> (\<forall>b \<in> set extra. int (length b) \<le> BatchSize cfg \<and> (BatchSize cfg = 1 \<longrightarrow> length b = 1))
     \<and> int (length extra) \<le> max 0 (NumTxs cfg - i)
     \<and> (r = Done \<longrightarrow> int (length extra) = max 0 (NumTxs cfg - i))
     \<and> (\<forall>j. r = RanOut j \<longrightarrow> i \<le> j \<and> j < NumTxs cfg \<and> int (length extra) = j - i \<and> txs t' = [])"
  using assms
proof (induction "nat (NumTxs cfg - i)" arbitrary: i t h sent)
  case 0
  then have "\<not> i < NumTxs cfg" by simp
  with "0.prems" have "r = Done" "sent' = sent" by (simp_all add: Run_loop.simps)
  then show ?case using \<open>\<not> i < NumTxs cfg\<close> by simp
next
  case (Suc n)
  then have lt: "i < NumTxs cfg" by simp
  show ?case
  proof (cases "Run_body cfg (env i) i (t, h, sent)")
    case (Inl res)
    then have res: "res = (r, t', h', sent')" using Suc.prems lt by (simp add: Run_loop.simps)
    from Run_body_Inl[OF Inl[unfolded res]] lt show ?thesis by auto
  next
    case (Inr s')
    obtain t1 h1 sent1 where s': "s' = (t1, h1, sent1)" by (cases s') auto
    from Run_body_Inr[OF Inr[unfolded s']] obtain b where
      b: "sent1 = sent @ [b]" "int (length b) \<le> BatchSize cfg" "BatchSize cfg = 1 \<longrightarrow> length b = 1"
      by blast
    have run: "Run_loop cfg env (i + 1) (t1, h1, sent1) = (r, t', h', sent')"
      using Suc.prems lt Inr s' by (simp add: Run_loop.simps)
    have n: "n = nat (NumTxs cfg - (i + 1))" using Suc.hyps(2) by simp
    from Suc.hyps(1)[OF n run] obtain extra where
      e: "sent' = sent1 @ extra"
      "\<forall>b \<in> set extra. int (length b) \<le> BatchSize cfg \<and> (BatchSize cfg = 1 \<longrightarrow> length b = 1)"
      "int (length extra) \<le> max 0 (NumTxs cfg - (i + 1))"
      "r = Done \<longrightarrow> int (length extra) = max 0 (NumTxs cfg - (i + 1))"
      "\<forall>j. r = RanOut j \<longrightarrow> i + 1 \<le> j \<and> j < NumTxs cfg \<and> int (length extra) = j - (i + 1) \<and> txs t' = []"
      by blast
    show ?thesis
      using b e lt by (intro exI[of _ "b # extra"]) auto
  qed
qed

lemma concat_unit_batches:
  "\<forall>b \<in> set bs. length b = 1 \<Longrightarrow> length (concat bs) = length bs"
  by (induction bs) auto

text \<open>
  Claim C7, amended. The loop runs its index from 0 to \<open>NumTxs - 1\<close> in steps of one and
  hands one batch of at most \<open>BatchSize\<close> transactions to the engine at each index. It
  ends when \<open>NumTxs\<close> batches have been submitted (\<open>Done\<close>), when it finds the sequence
  empty at some index \<open>j\<close>, having submitted \<open>j\<close> batches (\<open>RanOut j\<close>, returned with a nil
  error), or at a failure. So
  a run that completes without error or exhaustion has submitted exactly \<open>NumTxs\<close>
  batches, which are exactly \<open>NumTxs\<close> transactions when the batch size is one.
\<close>

theorem Run_loop_one_batch_per_index:
  assumes "Run_loop cfg env 0 (t, h, []) = (r, t', h', sent)"
  shows "(\<forall>b \<in> set sent. int (length b) \<le> BatchSize cfg)
     \<and> int (length sent) \<le> max 0 (NumTxs cfg)
     \<and> (r = Done \<longrightarrow> int (length sent) = max 0 (NumTxs cfg)
           \<and> (BatchSize cfg = 1 \<longrightarrow> int (length (concat sent)) = max 0 (NumTxs cfg)))
     \<and> (\<forall>j. r = RanOut j \<longrightarrow> 0 \<le> j \<and> j < NumTxs cfg \<and> int (length sent) = j \<and> txs t' = []
           \<and> returned_error r = Some None)"
proof -
  from Run_loop_batches[OF assms] have
    a: "\<forall>b \<in> set sent. int (length b) \<le> BatchSize cfg \<and> (BatchSize cfg = 1 \<longrightarrow> length b = 1)"
    and b: "int (length sent) \<le> max 0 (NumTxs cfg)"
    and c: "r = Done \<longrightarrow> int (length sent) = max 0 (NumTxs cfg)"
    and d: "\<forall>j. r = RanOut j \<longrightarrow> 0 \<le> j \<and> j < NumTxs cfg \<and> int (length sent) = j \<and> txs t' = []"
    by auto
  have "BatchSize cfg = 1 \<longrightarrow> length (concat sent) = length sent"
    using a concat_unit_batches[of sent] by blast
  then show ?thesis using a b c d by (auto simp: returned_error_def)
qed

lemmas run_defs = Run_body_def nextTxs_def steady_env_def waking_env_def deferred_env_def
  test_config_def test_run_def test_tester_def NewTester_def example_tx_def run_callback_def
  signals_def Issue_def Accept_def Reject_def AwaitCapacity_def word_sless_alt

lemma Run_loop_unit_batches_example:
  "Run_loop (test_config 2 1) (steady_env [CbIssue] [CbAccept]) 0 (test_run 50 [1, 2], [0], [])
     = (Done, test_run 50 [], [0, 1, 0, 1, 0], [[example_tx 1], [example_tx 2]])"
  by (simp add: Run_loop.simps run_defs)

lemma Run_loop_pairs_example:
  "Run_loop (test_config 4 2) (steady_env [CbIssue] [CbAccept]) 0 (test_run 50 [1, 2, 3, 4], [0], [])
     = (RanOut 2, test_run 50 [], [0, 1, 0, 1, 0],
        [[example_tx 1, example_tx 2], [example_tx 3, example_tx 4]])"
  by (simp add: Run_loop.simps run_defs)

lemma Run_loop_short_batch_example:
  "fst (Run_loop (test_config 3 2) (steady_env [CbIssue] [CbAccept]) 0 (test_run 50 [1, 2, 3], [0], [])) = Done
   \<and> snd (snd (snd (Run_loop (test_config 3 2) (steady_env [CbIssue] [CbAccept]) 0 (test_run 50 [1, 2, 3], [0], []))))
      = [[example_tx 1, example_tx 2], [example_tx 3], [example_tx 3]]"
  by (simp add: Run_loop.simps run_defs)

theorem Run_loop_one_batch_per_index_witness:
  "Run_loop (test_config 2 1) (steady_env [CbIssue] [CbAccept]) 0 (test_run 50 [1, 2], [0], [])
     = (Done, test_run 50 [], [0, 1, 0, 1, 0], [[example_tx 1], [example_tx 2]])
   \<and> int (length [[example_tx 1], [example_tx 2]]) = max 0 (NumTxs (test_config 2 1))
   \<and> BatchSize (test_config 2 1) = 1
   \<and> int (length (concat [[example_tx 1], [example_tx 2]])) = max 0 (NumTxs (test_config 2 1))"
  using Run_loop_one_batch_per_index[OF Run_loop_unit_batches_example] Run_loop_unit_batches_example
  by (simp add: test_config_def)

text \<open>
  The claim as stated fails. With four transactions in batches of two, all four have
  been submitted after the indices 0 and 1, and the loop goes on to index 2, where it
  ends by exhaustion: the index advances by one, not by the batch size. With three
  transactions in batches of two the run completes, having submitted four.
\<close>

theorem Run_loop_advances_by_one:
  "Run_loop (test_config 4 2) (steady_env [CbIssue] [CbAccept]) 0 (test_run 50 [1, 2, 3, 4], [0], [])
     = (RanOut 2, test_run 50 [], [0, 1, 0, 1, 0],
        [[example_tx 1, example_tx 2], [example_tx 3, example_tx 4]])
   \<and> int (length (concat [[example_tx 1, example_tx 2], [example_tx 3, example_tx 4]]))
       = NumTxs (test_config 4 2)
   \<and> fst (Run_loop (test_config 3 2) (steady_env [CbIssue] [CbAccept]) 0
         (test_run 50 [1, 2, 3], [0], [])) = Done
   \<and> snd (snd (snd (Run_loop (test_config 3 2) (steady_env [CbIssue] [CbAccept]) 0
         (test_run 50 [1, 2, 3], [0], []))))
       = [[example_tx 1, example_tx 2], [example_tx 3], [example_tx 3]]
   \<and> int (length (concat [[example_tx 1, example_tx 2], [example_tx 3], [example_tx 3]]))
       \<noteq> NumTxs (test_config 3 2)"
  using Run_loop_pairs_example Run_loop_short_batch_example by (simp add: test_config_def)

subsection \<open>The counter as a signed machine integer\<close>

lemma goint_range: "- (2 ^ 63) \<le> sint (c :: goint) \<and> sint c < 2 ^ 63"
  using sint_ge[of c] sint_lt[of c] by simp



text \<open>
  \<open>Issue\<close> at the largest value of the counter gives the smallest; \<open>Accept\<close> and \<open>Reject\<close> at
  the smallest give the largest, and call no \<open>Signal()\<close>.
\<close>

lemma counter_wraps_around:
  "sint (processingVtxs (Issue (t\<lparr>processingVtxs := 9223372036854775807\<rparr>))) = - 9223372036854775808"
  "sint (processingVtxs (fst (Accept (t\<lparr>processingVtxs := - 9223372036854775808\<rparr>)))) = 9223372036854775807"
  "sint (processingVtxs (fst (Reject (t\<lparr>processingVtxs := - 9223372036854775808\<rparr>)))) = 9223372036854775807"
  "snd (Accept (t\<lparr>processingVtxs := - 9223372036854775808\<rparr>)) = False"
  "snd (Reject (t\<lparr>processingVtxs := - 9223372036854775808\<rparr>)) = False"
  using goint_range[of "MaxProcessingVtxs t"]
  by (simp_all add: Issue_def Accept_def Reject_def word_sless_alt)

subsection \<open>The callbacks and the lost wake\<close>

text \<open>
  At every maximum: the loop parked with the counter one above the maximum is not woken
  by the \<open>Accept\<close> or \<open>Reject\<close> that brings the counter down to the maximum.
\<close>

lemma parked_one_above_maximum_not_woken:
  assumes "sint (processingVtxs t) = sint (MaxProcessingVtxs t) + 1" "cb \<noteq> CbIssue"
  shows "AwaitCapacity [[cb]] (t, h)
     = (False, t\<lparr>processingVtxs := MaxProcessingVtxs t\<rparr>, MaxProcessingVtxs t # h)"
proof -
  from assms(1) goint_range[of "MaxProcessingVtxs t"] goint_range[of "processingVtxs t"]
  have "sint (processingVtxs t - 1) = sint (MaxProcessingVtxs t)"
    by (simp add: sint_word_diff signed_take_bit_int_eq_self)
  then have eq: "processingVtxs t - 1 = MaxProcessingVtxs t" by (simp add: signed_word_eqI)
  from assms(1) have above: "MaxProcessingVtxs t <s processingVtxs t" by (simp add: word_sless_alt)
  from assms(2) eq above show ?thesis
    by (cases cb)
      (simp_all add: AwaitCapacity_def run_callback_def signals_def Accept_def Reject_def Let_def)
qed

text \<open>
  Claim C2 asks \<open>Accept\<close> and \<open>Reject\<close> to wake a waiter whenever the counter they have
  decremented is at or below the maximum, which is when the wait of \<open>Run\<close> is to be left.
  They call \<open>Signal()\<close> only when it is strictly below. With the maximum 50 and 51
  vertices processing, either callback brings the counter to 50 and calls no \<open>Signal()\<close>:
  the wait entered at 50 is passed at once, the loop parked at 51 is not woken
  (\<open>parked_one_above_maximum_not_woken\<close> above gives the same at every maximum). So with
  the maximum 0 the loop parks before its second batch with one vertex processing, the
  \<open>Accept\<close> of that vertex brings the counter to 0, and the run stays parked with nothing
  processing.
\<close>

theorem Accept_Reject_at_maximum_wake_no_waiter:
  "processingVtxs (fst (Accept ((test_tester 0 50)\<lparr>processingVtxs := 51\<rparr>))) = 50
   \<and> MaxProcessingVtxs (fst (Accept ((test_tester 0 50)\<lparr>processingVtxs := 51\<rparr>))) = 50
   \<and> snd (Accept ((test_tester 0 50)\<lparr>processingVtxs := 51\<rparr>)) = False
   \<and> processingVtxs (fst (Reject ((test_tester 0 50)\<lparr>processingVtxs := 51\<rparr>))) = 50
   \<and> snd (Reject ((test_tester 0 50)\<lparr>processingVtxs := 51\<rparr>)) = False
   \<and> AwaitCapacity [] ((test_tester 0 50)\<lparr>processingVtxs := 50\<rparr>, [])
      = (True, (test_tester 0 50)\<lparr>processingVtxs := 50\<rparr>, [])
   \<and> AwaitCapacity [[CbAccept]] ((test_tester 0 50)\<lparr>processingVtxs := 51\<rparr>, [])
      = (False, (test_tester 0 50)\<lparr>processingVtxs := 50\<rparr>, [50])
   \<and> AwaitCapacity [[CbReject]] ((test_tester 0 50)\<lparr>processingVtxs := 51\<rparr>, [])
      = (False, (test_tester 0 50)\<lparr>processingVtxs := 50\<rparr>, [50])
   \<and> Run_loop (test_config 2 1) (waking_env [CbAccept]) 0 (test_run 0 [1, 2], [0], [])
      = (Blocked, test_run 0 [2], [0, 1, 0], [[example_tx 1]])"
  by (simp add: Run_loop.simps run_defs)

subsection \<open>The capacity wait\<close>























end
